theory Spec2Isabelle
  imports Main "HOL-Library.Word" "HOL-Library.AList"
begin

section \<open>Strings and cells\<close>

text \<open>
  A JavaScript string is a sequence of UTF-16 code units; \<open>slice\<close> and \<open>length\<close> count
  code units. \<open>ascii\<close> writes an ASCII literal as such a sequence.
\<close>

type_synonym jsstring = "16 word list"

definition ascii :: "string \<Rightarrow> jsstring" where
  "ascii s = map (\<lambda>c. of_char c) s"

text \<open>
  \<open>String.prototype.trim\<close> strips WhiteSpace and LineTerminator code points from both
  ends (ECMAScript: TAB, VT, FF, ZWNBSP, the Unicode space separators, LF, CR, LS, PS).
  All of them are single code units.
\<close>

definition js_ws :: "16 word \<Rightarrow> bool" where
  "js_ws c = (c = 0x9 \<or> c = 0xA \<or> c = 0xB \<or> c = 0xC \<or> c = 0xD \<or> c = 0x20 \<or> c = 0xA0
     \<or> c = 0x1680 \<or> (0x2000 \<le> c \<and> c \<le> 0x200A) \<or> c = 0x2028 \<or> c = 0x2029
     \<or> c = 0x202F \<or> c = 0x205F \<or> c = 0x3000 \<or> c = 0xFEFF)"

definition trim :: "jsstring \<Rightarrow> jsstring" where
  "trim s = rev (dropWhile js_ws (rev (dropWhile js_ws s)))"

text \<open>\<open>type Mark = 'X' | 'O'\<close>, \<open>type Cell = '' | Mark\<close>.\<close>

datatype mark = MarkX | MarkO

datatype cell = Empty | Mk mark

text \<open>The value of \<open>checkWinner\<close>: \<open>Mark | 'draw' | null\<close>, with \<open>null\<close> as \<open>None\<close>.\<close>

datatype result = Won mark | Draw

text \<open>Reading a JavaScript array: an index past the end gives \<open>undefined\<close> (\<open>None\<close>).\<close>

definition at :: "'a list \<Rightarrow> nat \<Rightarrow> 'a option" where
  "at xs i = (if i < length xs then Some (xs ! i) else None)"

section \<open>checkWinner\<close>

definition lines :: "(nat \<times> nat \<times> nat) list" where
  "lines = [(0,1,2),(3,4,5),(6,7,8), (0,3,6),(1,4,7),(2,5,8), (0,4,8),(2,4,6)]"

text \<open>
  The loop body: \<open>board[a] && board[a] === board[b] && board[b] === board[c]\<close>, returning
  \<open>board[a]\<close>. The empty string and \<open>undefined\<close> are falsy.
\<close>

definition line_mark :: "cell list \<Rightarrow> nat \<times> nat \<times> nat \<Rightarrow> mark option" where
  "line_mark board l = (case l of (a, b, c) \<Rightarrow>
     (case at board a of
        Some (Mk m) \<Rightarrow> if at board a = at board b \<and> at board b = at board c then Some m else None
      | _ \<Rightarrow> None))"

fun scan_lines :: "cell list \<Rightarrow> (nat \<times> nat \<times> nat) list \<Rightarrow> mark option" where
  "scan_lines board [] = None"
| "scan_lines board (l # ls) =
     (case line_mark board l of Some m \<Rightarrow> Some m | None \<Rightarrow> scan_lines board ls)"

definition checkWinner :: "cell list \<Rightarrow> result option" where
  "checkWinner board =
     (case scan_lines board lines of
        Some m \<Rightarrow> Some (Won m)
      | None \<Rightarrow> if list_all (\<lambda>c. c \<noteq> Empty) board then Some Draw else None)"

text \<open>The specification's words: a line holds three equal non-empty marks \<open>m\<close>.\<close>

definition holds :: "cell list \<Rightarrow> nat \<times> nat \<times> nat \<Rightarrow> mark \<Rightarrow> bool" where
  "holds board l m = (case l of (a, b, c) \<Rightarrow>
     at board a = Some (Mk m) \<and> at board b = Some (Mk m) \<and> at board c = Some (Mk m))"

definition completed :: "cell list \<Rightarrow> bool" where
  "completed board = (\<exists>l \<in> set lines. \<exists>m. holds board l m)"

section \<open>The statistics store (db)\<close>

text \<open>
  A row of table \<open>players\<close>, keyed by \<open>name\<close>. The columns \<open>games\<close> and \<open>score\<close> are
  generated (\<open>wins + losses + draws\<close> and \<open>3 * wins + draws\<close>); the counters are
  \<open>INT UNSIGNED\<close> and are modelled without their upper bound. Keys are compared as
  code-unit sequences (the table's collation is not modelled).
\<close>

record row =
  wins :: nat
  losses :: nat
  draws :: nat

record stats =
  s_name :: jsstring
  s_wins :: nat
  s_losses :: nat
  s_draws :: nat
  s_games :: nat
  s_score :: nat

text \<open>The pool: the table, and the number of \<open>pool.execute\<close> statements it has run.\<close>

record db =
  players :: "jsstring \<rightharpoonup> row"
  writes :: nat

text \<open>
  \<open>pool.execute\<close> of \<open>INSERT ... VALUES (n, w, l, d) ON DUPLICATE KEY UPDATE ...\<close>: the row is
  inserted when the key is new and updated by \<open>upd\<close> otherwise.
\<close>

definition execute :: "jsstring \<Rightarrow> row \<Rightarrow> (row \<Rightarrow> row) \<Rightarrow> db \<Rightarrow> db" where
  "execute n ins upd d =
     d\<lparr>players := (players d)(n \<mapsto> (case players d n of None \<Rightarrow> ins | Some r \<Rightarrow> upd r)),
       writes := Suc (writes d)\<rparr>"

text \<open>\<open>(name ?? '').trim().slice(0, 64)\<close>; \<open>None\<close> is \<open>null\<close> or \<open>undefined\<close>.\<close>

definition normalizeName :: "jsstring option \<Rightarrow> jsstring" where
  "normalizeName name = take 64 (trim (case name of None \<Rightarrow> [] | Some s \<Rightarrow> s))"

definition addWin :: "jsstring option \<Rightarrow> db \<Rightarrow> db" where
  "addWin name d =
     (let n = normalizeName name in
      if n = [] then d
      else execute n \<lparr>wins = 1, losses = 0, draws = 0\<rparr> (\<lambda>r. r\<lparr>wins := wins r + 1\<rparr>) d)"

definition addLoss :: "jsstring option \<Rightarrow> db \<Rightarrow> db" where
  "addLoss name d =
     (let n = normalizeName name in
      if n = [] then d
      else execute n \<lparr>wins = 0, losses = 1, draws = 0\<rparr> (\<lambda>r. r\<lparr>losses := losses r + 1\<rparr>) d)"

definition addDraw :: "jsstring option \<Rightarrow> db \<Rightarrow> db" where
  "addDraw name d =
     (let n = normalizeName name in
      if n = [] then d
      else execute n \<lparr>wins = 0, losses = 0, draws = 1\<rparr> (\<lambda>r. r\<lparr>draws := draws r + 1\<rparr>) d)"

definition getPlayerStats :: "jsstring option \<Rightarrow> db \<Rightarrow> stats option" where
  "getPlayerStats name d =
     (let n = normalizeName name in
      if n = [] then None
      else (case players d n of
              None \<Rightarrow> None
            | Some r \<Rightarrow> Some \<lparr>s_name = n, s_wins = wins r, s_losses = losses r, s_draws = draws r,
                             s_games = wins r + losses r + draws r,
                             s_score = 3 * wins r + draws r\<rparr>))"

definition ensurePlayerStats :: "jsstring option \<Rightarrow> db \<Rightarrow> db \<times> stats option" where
  "ensurePlayerStats name d =
     (let n = normalizeName name in
      if n = [] then (d, None)
      else (let d' = execute n \<lparr>wins = 0, losses = 0, draws = 0\<rparr> (\<lambda>r. r) d
            in (d', getPlayerStats (Some n) d')))"

section \<open>The server state\<close>

text \<open>
  \<open>Player\<close> objects are shared: the connection's closure variable \<open>player\<close>, the waiting queue
  and a game's \<open>players\<close> all refer to the same object, and \<open>startMatch\<close> writes \<open>mark\<close> and
  \<open>gameId\<close> through the queue's reference. So the objects live in a heap (a list, a reference
  being an index; \<open>join\<close> allocates at the end) and everything else holds references. The
  field \<open>socket\<close> is left out: a connection is addressed by its \<open>id\<close>.
\<close>

record player =
  pid :: jsstring
  name :: jsstring
  mark :: mark
  gameId :: "jsstring option"

record game =
  gid :: jsstring
  board :: "cell list"
  playerX :: nat
  playerO :: nat
  turn :: mark
  finished :: bool

text \<open>
  \<open>games\<close> is a \<open>Map\<close>: an association list in insertion order, where \<open>set\<close> on a key
  already present replaces the value in place (\<open>AList.update\<close>), \<open>delete\<close> removes the key
  (\<open>AList.delete\<close>) and \<open>values()\<close> iterates in list order. \<open>cur\<close> gives, for each connection
  identifier, the closure variable \<open>player\<close> of that connection (\<open>None\<close> for \<open>null\<close>).
  \<open>pending\<close> lists the connections of the \<open>join\<close> handlers that are suspended at their
  \<open>await\<close>, one entry for each suspended handler.
\<close>

record server =
  heap :: "player list"
  cur :: "jsstring \<Rightarrow> nat option"
  waitingQueue :: "nat list"
  games :: "(jsstring \<times> game) list"
  pending :: "jsstring list"

definition init :: server where
  "init = \<lparr>heap = [], cur = (\<lambda>_. None), waitingQueue = [], games = [], pending = []\<rparr>"

text \<open>
  What a handler sends out: an event to the connection (room) with a given identifier, or a
  call to the statistics store, issued and not awaited. The three error messages of \<open>move\<close>
  are \<open>NotYourTurn\<close>, \<open>InvalidPosition\<close> and \<open>CellOccupied\<close>.
\<close>

datatype move_error = NotYourTurn | InvalidPosition | CellOccupied

datatype event =
    Profile jsstring bool "stats option"
  | Waiting
  | MatchStarted jsstring mark jsstring
  | StateEv jsstring "cell list" mark
  | GameOver jsstring result
  | ErrorEv move_error

datatype dbcall =
    EnsurePlayerStats jsstring
  | AddWin jsstring
  | AddLoss jsstring
  | AddDraw jsstring

datatype outmsg = Emit jsstring event | Call dbcall

section \<open>startMatch\<close>

definition match_id :: "jsstring \<Rightarrow> jsstring \<Rightarrow> jsstring" where
  "match_id id1 id2 = ascii ''g_'' @ take 5 id1 @ ascii ''_'' @ take 5 id2"

text \<open>\<open>draw\<close> is the outcome of \<open>Math.random() < 0.5\<close>.\<close>

definition startMatch :: "bool \<Rightarrow> nat \<Rightarrow> nat \<Rightarrow> server \<Rightarrow> server \<times> outmsg list" where
  "startMatch draw p1 p2 s =
     (let gameId' = match_id (pid (heap s ! p1)) (pid (heap s ! p2));
          pX = (if draw then p1 else p2);
          pO = (if pX = p1 then p2 else p1);
          h1 = (heap s)[pX := (heap s ! pX)\<lparr>mark := MarkX\<rparr>];
          h2 = h1[pO := (h1 ! pO)\<lparr>mark := MarkO\<rparr>];
          game = \<lparr>gid = gameId', board = replicate 9 Empty, playerX = pX, playerO = pO,
                  turn = MarkX, finished = False\<rparr>;
          gs = AList.update gameId' game (games s);
          h3 = h2[pX := (h2 ! pX)\<lparr>gameId := Some gameId'\<rparr>];
          h4 = h3[pO := (h3 ! pO)\<lparr>gameId := Some gameId'\<rparr>]
      in (s\<lparr>heap := h4, games := gs\<rparr>,
          [Emit (pid (h4 ! pX)) (MatchStarted gameId' MarkX (name (h4 ! pO))),
           Emit (pid (h4 ! pO)) (MatchStarted gameId' MarkO (name (h4 ! pX))),
           Emit (pid (h4 ! pX)) (StateEv gameId' (board game) (turn game)),
           Emit (pid (h4 ! pO)) (StateEv gameId' (board game) (turn game))]))"

section \<open>persistResultSafe\<close>

text \<open>\<open>name?.trim() || fallback\<close>.\<close>

definition trimmed_or :: "jsstring \<Rightarrow> jsstring \<Rightarrow> jsstring" where
  "trimmed_or nm fallback = (if trim nm = [] then fallback else trim nm)"

definition persistResultSafe :: "player list \<Rightarrow> game \<Rightarrow> result \<Rightarrow> outmsg list" where
  "persistResultSafe h game res =
     (let nameX = trimmed_or (name (h ! playerX game)) (ascii ''Jogador_X'');
          nameO = trimmed_or (name (h ! playerO game)) (ascii ''Jogador_O'')
      in case res of
           Draw \<Rightarrow> [Call (AddDraw nameX), Call (AddDraw nameO)]
         | Won MarkX \<Rightarrow> [Call (AddWin nameX), Call (AddLoss nameO)]
         | Won MarkO \<Rightarrow> [Call (AddWin nameO), Call (AddLoss nameX)])"

section \<open>The connection handlers\<close>

text \<open>
  The \<open>join\<close> handler of the first server file is \<open>async\<close>: it creates the player object,
  assigns it to the closure variable \<open>player\<close>, calls \<open>ensurePlayerStats(player.name)\<close> and
  is suspended at the \<open>await\<close>. Other events are handled in between. \<open>join_start\<close> is the
  handler up to the \<open>await\<close>. (For a name whose trimmed form is empty the lookup
  resolves without a query; the model lets other events come in between for every name,
  which only adds runs.)
\<close>

text \<open>\<open>name || socket.id\<close>: the identifier stands in for an absent or empty name.\<close>

definition name_or_id :: "jsstring option \<Rightarrow> jsstring \<Rightarrow> jsstring" where
  "name_or_id nm sid = (case nm of None \<Rightarrow> sid | Some n \<Rightarrow> if n = [] then sid else n)"

definition join_start :: "jsstring \<Rightarrow> jsstring option \<Rightarrow> server \<Rightarrow> server \<times> outmsg list" where
  "join_start sid nm s =
     (let p = length (heap s);
          player = \<lparr>pid = sid, name = name_or_id nm sid, mark = MarkX, gameId = None\<rparr>
      in (s\<lparr>heap := heap s @ [player], cur := (cur s)(sid := Some p),
            pending := pending s @ [sid]\<rparr>,
          [Call (EnsurePlayerStats (name player))]))"

text \<open>
  What the \<open>await\<close> gives: the promise rejects, and the handler ends there, or it
  resolves with the statistics or \<open>null\<close>. \<open>join_resume\<close> is the handler from the \<open>await\<close>
  on, for one suspended handler of the connection. It reads the closure variable \<open>player\<close>
  as it is then: \<open>player.name\<close> for the \<open>profile\<close> event, and \<open>player\<close> for the push. Where
  no handler of the connection is suspended there is nothing to resume, and the state
  stays as it is.
\<close>

datatype reply = Rejected | Resolved "stats option"

definition join_resume :: "jsstring \<Rightarrow> reply \<Rightarrow> bool \<Rightarrow> server \<Rightarrow> server \<times> outmsg list" where
  "join_resume sid rep draw s =
     (if sid \<notin> set (pending s) then (s, [])
      else (let s0 = s\<lparr>pending := remove1 sid (pending s)\<rparr>
            in case rep of
                 Rejected \<Rightarrow> (s0, [])
               | Resolved st \<Rightarrow>
                   (case cur s0 sid of
                      None \<Rightarrow> (s0, [])
                    | Some p \<Rightarrow>
                        (let out = [Emit sid (Profile (name (heap s0 ! p)) (st \<noteq> None) st),
                                    Emit sid Waiting];
                             s2 = s0\<lparr>waitingQueue := waitingQueue s0 @ [p]\<rparr>
                         in if length (waitingQueue s2) \<ge> 2
                            then (let p1 = hd (waitingQueue s2);
                                      q1 = tl (waitingQueue s2);
                                      p2 = hd q1;
                                      q2 = tl q1;
                                      (s3, out') = startMatch draw p1 p2 (s2\<lparr>waitingQueue := q2\<rparr>)
                                  in (s3, out @ out'))
                            else (s2, out)))))"

definition flip :: "mark \<Rightarrow> mark" where
  "flip m = (if m = MarkX then MarkO else MarkX)"

text \<open>The payload's \<open>index\<close> is taken to be an integer.\<close>

definition move :: "jsstring \<Rightarrow> jsstring \<Rightarrow> int \<Rightarrow> server \<Rightarrow> server \<times> outmsg list" where
  "move sid gameId' index s =
     (case map_of (games s) gameId' of
        None \<Rightarrow> (s, [])
      | Some game \<Rightarrow>
          if finished game then (s, [])
          else (case cur s sid of
                  None \<Rightarrow> (s, [])
                | Some p \<Rightarrow>
                    if gameId (heap s ! p) \<noteq> Some gameId' then (s, [])
                    else (let mk = mark (heap s ! p) in
                      if turn game \<noteq> mk then (s, [Emit sid (ErrorEv NotYourTurn)])
                      else if index < 0 \<or> index > 8 then (s, [Emit sid (ErrorEv InvalidPosition)])
                      else if at (board game) (nat index) \<noteq> Some Empty
                        then (s, [Emit sid (ErrorEv CellOccupied)])
                      else (let game1 = game\<lparr>board := (board game)[nat index := Mk mk],
                                             turn := flip mk\<rparr>;
                                state = StateEv (gid game1) (board game1) (turn game1);
                                out = [Emit (pid (heap s ! playerX game1)) state,
                                       Emit (pid (heap s ! playerO game1)) state]
                            in case checkWinner (board game1) of
                                 None \<Rightarrow> (s\<lparr>games := AList.update gameId' game1 (games s)\<rparr>, out)
                               | Some res \<Rightarrow>
                                   (let game2 = game1\<lparr>finished := True\<rparr>;
                                        payload = GameOver (gid game2) res
                                    in (s\<lparr>games := AList.delete (gid game2)
                                                      (AList.update gameId' game2 (games s))\<rparr>,
                                        out @ [Emit (pid (heap s ! playerX game2)) payload,
                                               Emit (pid (heap s ! playerO game2)) payload]
                                            @ persistResultSafe (heap s) game2 res))))))"

text \<open>\<open>findIndex\<close> followed by \<open>splice(idx, 1)\<close>: the first entry that satisfies \<open>P\<close> goes.\<close>

fun remove_first :: "('a \<Rightarrow> bool) \<Rightarrow> 'a list \<Rightarrow> 'a list" where
  "remove_first P [] = []"
| "remove_first P (x # xs) = (if P x then xs else x # remove_first P xs)"

text \<open>
  The body of the loop of the \<open>disconnect\<close> handler, for a game \<open>g\<close> stored under key \<open>k\<close>
  that has the connection as a player: the other player wins.
\<close>

definition forfeit :: "jsstring \<Rightarrow> server \<Rightarrow> jsstring \<Rightarrow> game \<Rightarrow> server \<times> outmsg list" where
  "forfeit sid s k g =
     (let isX = (pid (heap s ! playerX g) = sid);
          g' = g\<lparr>finished := True\<rparr>;
          winnerMark = (if isX then MarkO else MarkX);
          winner = (if isX then playerO g' else playerX g')
      in (s\<lparr>games := AList.delete (gid g') (AList.update k g' (games s))\<rparr>,
          Emit (pid (heap s ! winner)) (GameOver (gid g') (Won winnerMark))
          # (if winnerMark = MarkX
             then [Call (AddWin (name (heap s ! playerX g'))),
                   Call (AddLoss (name (heap s ! playerO g')))]
             else [Call (AddWin (name (heap s ! playerO g'))),
                   Call (AddLoss (name (heap s ! playerX g')))])))"

text \<open>\<open>isX || isO\<close>.\<close>

definition involves :: "player list \<Rightarrow> jsstring \<Rightarrow> game \<Rightarrow> bool" where
  "involves h sid g \<longleftrightarrow> pid (h ! playerX g) = sid \<or> pid (h ! playerO g) = sid"

text \<open>
  The loop \<open>for (const g of games.values())\<close>, over the entries still to visit; it ends
  (\<open>break\<close>) at the first game that has the connection as a player.
\<close>

fun forfeit_loop :: "jsstring \<Rightarrow> server \<Rightarrow> (jsstring \<times> game) list \<Rightarrow> server \<times> outmsg list" where
  "forfeit_loop sid s [] = (s, [])"
| "forfeit_loop sid s ((k, g) # rest) =
     (if involves (heap s) sid g then forfeit sid s k g else forfeit_loop sid s rest)"

definition disconnect :: "jsstring \<Rightarrow> server \<Rightarrow> server \<times> outmsg list" where
  "disconnect sid s =
     (let s1 = s\<lparr>waitingQueue := remove_first (\<lambda>p. pid (heap s ! p) = sid) (waitingQueue s)\<rparr>
      in forfeit_loop sid s1 (games s1))"

text \<open>
  The second server file has no statistics store; the loop body of its \<open>disconnect\<close>
  handler ends the game with \<open>result: "draw"\<close>.
\<close>

definition forfeit2 :: "jsstring \<Rightarrow> server \<Rightarrow> jsstring \<Rightarrow> game \<Rightarrow> server \<times> outmsg list" where
  "forfeit2 sid s k g =
     (let g' = g\<lparr>finished := True\<rparr>;
          other = (if pid (heap s ! playerX g') = sid then playerO g' else playerX g')
      in (s\<lparr>games := AList.delete (gid g') (AList.update k g' (games s))\<rparr>,
          [Emit (pid (heap s ! other)) (GameOver (gid g') Draw)]))"

fun forfeit_loop2 :: "jsstring \<Rightarrow> server \<Rightarrow> (jsstring \<times> game) list \<Rightarrow> server \<times> outmsg list" where
  "forfeit_loop2 sid s [] = (s, [])"
| "forfeit_loop2 sid s ((k, g) # rest) =
     (if involves (heap s) sid g then forfeit2 sid s k g else forfeit_loop2 sid s rest)"

definition disconnect2 :: "jsstring \<Rightarrow> server \<Rightarrow> server \<times> outmsg list" where
  "disconnect2 sid s =
     (let s1 = s\<lparr>waitingQueue := remove_first (\<lambda>p. pid (heap s ! p) = sid) (waitingQueue s)\<rparr>
      in forfeit_loop2 sid s1 (games s1))"

section \<open>Runs of the server\<close>

datatype inbound =
    JoinStart jsstring "jsstring option"
  | JoinResume jsstring reply bool
  | Move jsstring jsstring int
  | Disconnect jsstring

fun handle :: "inbound \<Rightarrow> server \<Rightarrow> server \<times> outmsg list" where
  "handle (JoinStart sid nm) s = join_start sid nm s"
| "handle (JoinResume sid rep draw) s = join_resume sid rep draw s"
| "handle (Move sid g i) s = move sid g i s"
| "handle (Disconnect sid) s = disconnect sid s"

fun run :: "inbound list \<Rightarrow> server \<Rightarrow> server" where
  "run [] s = s"
| "run (e # es) s = run es (fst (handle e s))"

text \<open>A join whose lookup settles before the server handles anything else.\<close>

definition joined :: "jsstring \<Rightarrow> jsstring option \<Rightarrow> reply \<Rightarrow> bool \<Rightarrow> inbound list" where
  "joined sid nm rep draw = [JoinStart sid nm, JoinResume sid rep draw]"

inductive reachable :: "server \<Rightarrow> bool" where
  start: "reachable init"
| step: "reachable s \<Longrightarrow> reachable (fst (handle e s))"

text \<open>The first registered game, in iteration order, that has the connection as a player.\<close>

definition first_match :: "jsstring \<Rightarrow> server \<Rightarrow> (jsstring \<times> game) option" where
  "first_match sid s = find (\<lambda>(k, g). involves (heap s) sid g) (games s)"

text \<open>
  What every run of the server keeps true: every reference is to an allocated object;
  the object that a connection holds carries the connection's identifier, and a
  connection with a suspended \<open>join\<close> holds one; at most one object waits between two
  events; the keys of \<open>games\<close> are distinct (it is a \<open>Map\<close>) and each game is stored
  under its own \<open>id\<close>; a registered game is not finished and has nine cells, none of
  its lines completed.
\<close>

definition wf :: "server \<Rightarrow> bool" where
  "wf s \<longleftrightarrow>
     length (waitingQueue s) \<le> 1 \<and> (\<forall>p \<in> set (waitingQueue s). p < length (heap s))
     \<and> (\<forall>sid p. cur s sid = Some p \<longrightarrow> p < length (heap s) \<and> pid (heap s ! p) = sid)
     \<and> (\<forall>sid \<in> set (pending s). cur s sid \<noteq> None)
     \<and> distinct (map fst (games s))
     \<and> (\<forall>(k, g) \<in> set (games s).
          gid g = k \<and> \<not> finished g \<and> length (board g) = 9 \<and> \<not> completed (board g)
          \<and> playerX g < length (heap s) \<and> playerO g < length (heap s))"


text \<open>The game object that \<open>startMatch\<close> builds.\<close>

definition new_game :: "jsstring \<Rightarrow> nat \<Rightarrow> nat \<Rightarrow> game" where
  "new_game k x y = \<lparr>gid = k, board = replicate 9 Empty, playerX = x, playerO = y,
                     turn = MarkX, finished = False\<rparr>"

text \<open>Connection identifiers for the scenarios below.\<close>

definition alice :: jsstring where "alice = ascii ''alice''"
definition bob :: jsstring where "bob = ascii ''bob''"
definition carol :: jsstring where "carol = ascii ''carol''"
definition dave :: jsstring where "dave = ascii ''dave''"

text \<open>The connections that a list of outputs sends \<open>matchStarted\<close> to, in order.\<close>

fun started :: "outmsg list \<Rightarrow> jsstring list" where
  "started [] = []"
| "started (Emit t (MatchStarted k m opp) # out) = t # started out"
| "started (_ # out) = started out"

text \<open>
  For a run: the connections whose player object a resumed \<open>join\<close> pushes onto the
  queue, in the order of the pushes and each with the draw of its handler; and the
  connections that \<open>matchStarted\<close> is sent to, in order.
\<close>

fun enqueued :: "inbound list \<Rightarrow> server \<Rightarrow> (jsstring \<times> bool) list" where
  "enqueued [] s = []"
| "enqueued (JoinResume sid (Resolved st) d # es) s =
     (if sid \<in> set (pending s) \<and> cur s sid \<noteq> None then [(sid, d)] else [])
     @ enqueued es (fst (join_resume sid (Resolved st) d s))"
| "enqueued (e # es) s = enqueued es (fst (handle e s))"

fun all_started :: "inbound list \<Rightarrow> server \<Rightarrow> jsstring list" where
  "all_started [] s = []"
| "all_started (e # es) s = started (snd (handle e s)) @ all_started es (fst (handle e s))"

text \<open>
  Pairing a list two by two from the front; the draw of the second of a pair says which
  of the two is announced first.
\<close>

fun arrange :: "(jsstring \<times> bool) list \<Rightarrow> jsstring list" where
  "arrange ((a, x) # (b, d) # rest) = (if d then [a, b] else [b, a]) @ arrange rest"
| "arrange _ = []"

fun is_join :: "inbound \<Rightarrow> bool" where
  "is_join (JoinStart sid nm) = True"
| "is_join (JoinResume sid rep d) = True"
| "is_join _ = False"

text \<open>The entries of the waiting queue that belong to a connection identifier.\<close>

definition entries_for :: "jsstring \<Rightarrow> server \<Rightarrow> nat list" where
  "entries_for sid s = filter (\<lambda>p. pid (heap s ! p) = sid) (waitingQueue s)"

text \<open>
  A move is taken when the handler writes the board; it then sends a \<open>state\<close> event, and
  in no other case does it send one.
\<close>

fun is_state :: "outmsg \<Rightarrow> bool" where
  "is_state (Emit t (StateEv k b m)) = True"
| "is_state _ = False"

definition accepted :: "jsstring \<Rightarrow> jsstring \<Rightarrow> int \<Rightarrow> server \<Rightarrow> bool" where
  "accepted sid k i s \<longleftrightarrow> list_ex is_state (snd (move sid k i s))"

text \<open>
  The specification's words for a legal move: the match is registered and not finished,
  the sender is a participant of it, it is the turn of the sender's mark, the index is in
  \<open>[0,8]\<close> and the cell is empty.
\<close>

definition legal_spec :: "jsstring \<Rightarrow> jsstring \<Rightarrow> int \<Rightarrow> server \<Rightarrow> bool" where
  "legal_spec sid k i s \<longleftrightarrow>
     (case map_of (games s) k of
        None \<Rightarrow> False
      | Some g \<Rightarrow> \<not> finished g
          \<and> ((pid (heap s ! playerX g) = sid \<and> turn g = MarkX)
               \<or> (pid (heap s ! playerO g) = sid \<and> turn g = MarkO))
          \<and> 0 \<le> i \<and> i \<le> 8 \<and> at (board g) (nat i) = Some Empty)"

text \<open>
  The handler's own test: in place of "the sender is a participant", the player object
  that the connection holds now has the match identifier as its \<open>gameId\<close>, and the mark
  is that object's \<open>mark\<close>.
\<close>

definition move_ok :: "jsstring \<Rightarrow> jsstring \<Rightarrow> int \<Rightarrow> server \<Rightarrow> bool" where
  "move_ok sid k i s \<longleftrightarrow>
     (case map_of (games s) k of
        None \<Rightarrow> False
      | Some g \<Rightarrow> \<not> finished g
          \<and> (case cur s sid of
                None \<Rightarrow> False
              | Some p \<Rightarrow> gameId (heap s ! p) = Some k \<and> turn g = mark (heap s ! p))
          \<and> 0 \<le> i \<and> i \<le> 8 \<and> at (board g) (nat i) = Some Empty)"

text \<open>Connections whose identifiers agree on their first five code units.\<close>

definition alice1 :: jsstring where "alice1 = ascii ''alice-1''"
definition bobby1 :: jsstring where "bobby1 = ascii ''bobby-1''"
definition alice2 :: jsstring where "alice2 = ascii ''alice-2''"
definition bobby2 :: jsstring where "bobby2 = ascii ''bobby-2''"

text \<open>A game of \<open>alice\<close> and \<open>bob\<close> that \<open>alice\<close>, playing \<open>X\<close>, wins on the first row.\<close>

definition won_game :: "inbound list" where
  "won_game =
     joined alice None (Resolved None) True @ joined bob None (Resolved None) True
     @ [Move alice (match_id alice bob) 0, Move bob (match_id alice bob) 3,
        Move alice (match_id alice bob) 1, Move bob (match_id alice bob) 4,
        Move alice (match_id alice bob) 2]"

text \<open>
  The match identifiers that a list of outputs announces with \<open>matchStarted\<close>, and the
  runs in which no handler announces a given identifier.
\<close>

fun announced :: "outmsg list \<Rightarrow> jsstring list" where
  "announced [] = []"
| "announced (Emit t (MatchStarted k m opp) # out) = k # announced out"
| "announced (_ # out) = announced out"

fun no_rematch :: "jsstring \<Rightarrow> inbound list \<Rightarrow> server \<Rightarrow> bool" where
  "no_rematch k [] s = True"
| "no_rematch k (e # es) s =
     (k \<notin> set (announced (snd (handle e s))) \<and> no_rematch k es (fst (handle e s)))"

text \<open>The parts of the invariant.\<close>

definition refs_ok :: "server \<Rightarrow> bool" where
  "refs_ok s \<longleftrightarrow>
     length (waitingQueue s) \<le> 1 \<and> (\<forall>p \<in> set (waitingQueue s). p < length (heap s))
     \<and> (\<forall>sid p. cur s sid = Some p \<longrightarrow> p < length (heap s) \<and> pid (heap s ! p) = sid)
     \<and> (\<forall>sid \<in> set (pending s). cur s sid \<noteq> None)"

definition game_ok :: "nat \<Rightarrow> jsstring \<Rightarrow> game \<Rightarrow> bool" where
  "game_ok n k g \<longleftrightarrow>
     gid g = k \<and> \<not> finished g \<and> length (board g) = 9 \<and> \<not> completed (board g)
     \<and> playerX g < n \<and> playerO g < n"

text \<open>
  Runs for the scenarios: \<open>alice\<close> and \<open>bob\<close> join, each lookup resolving at once;
  \<open>alice\<close> joins three times, with \<open>bob\<close> and \<open>carol\<close> in between; two pairs whose
  identifiers agree on five code units join; \<open>alice\<close> joins again while she plays;
  \<open>alice\<close> and \<open>bob\<close> join again after their game; and \<open>alice\<close>, \<open>bob\<close> and \<open>carol\<close>
  join in this order while the lookup of \<open>alice\<close> resolves last.
\<close>

definition alice_bob :: "inbound list" where
  "alice_bob = joined alice None (Resolved None) True @ joined bob None (Resolved None) True"

definition alice_thrice :: "inbound list" where
  "alice_thrice = alice_bob @ joined alice None (Resolved None) True
     @ joined carol None (Resolved None) True @ joined alice None (Resolved None) True"

definition collision :: "inbound list" where
  "collision = joined alice1 None (Resolved None) True @ joined bobby1 None (Resolved None) True
     @ joined alice2 None (Resolved None) True @ joined bobby2 None (Resolved None) True"

definition rejoin :: "inbound list" where
  "rejoin = alice_bob @ joined alice None (Resolved None) True"

definition rematch :: "inbound list" where
  "rematch = won_game @ alice_bob"

definition alice_late :: "inbound list" where
  "alice_late =
     [JoinStart alice None, JoinStart bob None, JoinStart carol None,
      JoinResume bob (Resolved None) True, JoinResume carol (Resolved None) True,
      JoinResume alice (Resolved None) True]"

definition four_overlapping :: "inbound list" where
  "four_overlapping =
     [JoinStart alice None, JoinStart bob None, JoinStart carol None, JoinStart dave None,
      JoinResume alice (Resolved None) True, JoinResume bob (Resolved None) True,
      JoinResume carol (Resolved None) False, JoinResume dave (Resolved None) False]"

text \<open>
  What is left in the queue when a list of pushes is paired two by two from the front.
\<close>

fun unpaired :: "(jsstring \<times> bool) list \<Rightarrow> jsstring list" where
  "unpaired ((a, x) # (b, d) # rest) = unpaired rest"
| "unpaired xs = map fst xs"

text \<open>The identifiers of the objects that wait in the queue.\<close>

definition waiting_ids :: "server \<Rightarrow> jsstring list" where
  "waiting_ids s = map (\<lambda>p. pid (heap s ! p)) (waitingQueue s)"

text \<open>\<open>alice\<close> joins, and joins again before anyone else does.\<close>

definition alice_twice :: "inbound list" where
  "alice_twice = joined alice None (Resolved None) True @ joined alice None (Resolved None) True"


section \<open>Evaluating a board\<close>

lemma line_mark_holds: "line_mark b l = Some m \<longleftrightarrow> holds b l m"
  by (auto simp: line_mark_def holds_def split: prod.splits option.splits cell.splits)

lemma holds_unique: "holds b l m \<Longrightarrow> holds b l m' \<Longrightarrow> m = m'"
  by (auto simp: holds_def split: prod.splits)

lemma scan_lines_None: "scan_lines b ls = None \<longleftrightarrow> (\<forall>l \<in> set ls. \<forall>m. \<not> holds b l m)"
  by (induction ls) (auto simp: line_mark_holds[symmetric] split: option.splits)

text \<open>The scan answers with the mark of the first completed line of the list.\<close>

lemma scan_lines_Some:
  "scan_lines b ls = Some m \<longleftrightarrow>
     (\<exists>pre l post. ls = pre @ l # post \<and> holds b l m \<and> (\<forall>l' \<in> set pre. \<forall>m'. \<not> holds b l' m'))"
proof (induction ls)
  case Nil
  then show ?case by simp
next
  case (Cons a ls)
  let ?first = "\<lambda>xs. \<exists>pre l post. xs = pre @ l # post \<and> holds b l m
                  \<and> (\<forall>l' \<in> set pre. \<forall>m'. \<not> holds b l' m')"
  show ?case
  proof (cases "line_mark b a")
    case None
    then have nh: "\<forall>m'. \<not> holds b a m'"
      by (simp add: line_mark_holds[symmetric])
    have "?first ls \<longleftrightarrow> ?first (a # ls)"
    proof
      assume "?first ls"
      then obtain pre l post where "ls = pre @ l # post" "holds b l m"
        "\<forall>l' \<in> set pre. \<forall>m'. \<not> holds b l' m'" by blast
      with nh have "a # ls = (a # pre) @ l # post \<and> holds b l m
          \<and> (\<forall>l' \<in> set (a # pre). \<forall>m'. \<not> holds b l' m')" by simp
      then show "?first (a # ls)" by blast
    next
      assume "?first (a # ls)"
      then obtain pre l post where *: "a # ls = pre @ l # post" "holds b l m"
        "\<forall>l' \<in> set pre. \<forall>m'. \<not> holds b l' m'" by blast
      show "?first ls"
      proof (cases pre)
        case Nil
        with * nh show ?thesis by simp
      next
        case (Cons p pre')
        with * have "ls = pre' @ l # post \<and> holds b l m
            \<and> (\<forall>l' \<in> set pre'. \<forall>m'. \<not> holds b l' m')" by simp
        then show ?thesis by blast
      qed
    qed
    moreover have "scan_lines b (a # ls) = scan_lines b ls"
      using None by simp
    ultimately show ?thesis using Cons.IH by simp
  next
    case (Some m0)
    then have h: "holds b a m0" by (simp add: line_mark_holds)
    have "?first (a # ls) \<longleftrightarrow> m = m0"
    proof
      assume "?first (a # ls)"
      then obtain pre l post where *: "a # ls = pre @ l # post" "holds b l m"
        "\<forall>l' \<in> set pre. \<forall>m'. \<not> holds b l' m'" by blast
      show "m = m0"
      proof (cases pre)
        case Nil
        with * have "holds b a m" by simp
        with h show ?thesis by (rule holds_unique[rotated])
      next
        case (Cons p pre')
        with * have "p = a" by simp
        with Cons * h show ?thesis by auto
      qed
    next
      assume "m = m0"
      with h have "a # ls = [] @ a # ls \<and> holds b a m
          \<and> (\<forall>l' \<in> set []. \<forall>m'. \<not> holds b l' m')" by simp
      then show "?first (a # ls)" by blast
    qed
    moreover have "scan_lines b (a # ls) = Some m0"
      using Some by simp
    ultimately show ?thesis by auto
  qed
qed

lemma scan_lines_Some_holds:
  "scan_lines b ls = Some m \<Longrightarrow> \<exists>l \<in> set ls. holds b l m"
  by (induction ls) (auto simp: line_mark_holds split: option.splits)

lemma scan_lines_only_mark:
  assumes "l \<in> set ls" "holds b l m" "\<forall>l \<in> set ls. \<not> holds b l (flip m)"
  shows "scan_lines b ls = Some m"
proof -
  from assms(1,2) have "scan_lines b ls \<noteq> None"
    by (auto simp: scan_lines_None)
  then obtain m' where m': "scan_lines b ls = Some m'" by blast
  then obtain l' where "l' \<in> set ls" "holds b l' m'"
    by (rule scan_lines_Some_holds[elim_format]) blast
  with assms(3) have "m' \<noteq> flip m" by blast
  then have "m' = m" by (cases m; cases m') (simp_all add: flip_def)
  with m' show ?thesis by simp
qed

lemma all_occupied: "list_all (\<lambda>c. c \<noteq> Empty) b \<longleftrightarrow> Empty \<notin> set b"
  by (auto simp: list_all_iff)

lemma checkWinner_cases:
  "(checkWinner b = Some (Won m) \<longleftrightarrow>
      (\<exists>pre l post. lines = pre @ l # post \<and> holds b l m
         \<and> (\<forall>l' \<in> set pre. \<forall>m'. \<not> holds b l' m')))
   \<and> ((\<exists>l \<in> set lines. holds b l m) \<and> (\<forall>l \<in> set lines. \<not> holds b l (flip m))
        \<longrightarrow> checkWinner b = Some (Won m))
   \<and> (checkWinner b = Some Draw \<longleftrightarrow> \<not> completed b \<and> Empty \<notin> set b)
   \<and> (checkWinner b = None \<longleftrightarrow> \<not> completed b \<and> Empty \<in> set b)"
proof (intro conjI)
  have nc: "scan_lines b lines = None \<longleftrightarrow> \<not> completed b"
    by (simp add: scan_lines_None completed_def)
  show "checkWinner b = Some (Won m) \<longleftrightarrow>
      (\<exists>pre l post. lines = pre @ l # post \<and> holds b l m
         \<and> (\<forall>l' \<in> set pre. \<forall>m'. \<not> holds b l' m'))"
    unfolding scan_lines_Some[symmetric]
    by (simp add: checkWinner_def split: option.splits)
  show "(\<exists>l \<in> set lines. holds b l m) \<and> (\<forall>l \<in> set lines. \<not> holds b l (flip m))
        \<longrightarrow> checkWinner b = Some (Won m)"
    by (auto simp: checkWinner_def dest: scan_lines_only_mark)
  show "checkWinner b = Some Draw \<longleftrightarrow> \<not> completed b \<and> Empty \<notin> set b"
    using nc by (cases "scan_lines b lines") (auto simp: checkWinner_def all_occupied)
  show "checkWinner b = None \<longleftrightarrow> \<not> completed b \<and> Empty \<in> set b"
    using nc by (cases "scan_lines b lines") (auto simp: checkWinner_def all_occupied)
qed

section \<open>Blank names in the statistics store\<close>

lemma normalizeName_blank:
  "trim (case nm of None \<Rightarrow> [] | Some s \<Rightarrow> s) = [] \<Longrightarrow> normalizeName nm = []"
  by (simp add: normalizeName_def)

lemma execute_other_key: "n \<noteq> k \<Longrightarrow> players (execute n ins upd d) k = players d k"
  by (simp add: execute_def)

text \<open>
  C9. For a name whose trimmed form is empty, \<open>addWin\<close>, \<open>addLoss\<close> and \<open>addDraw\<close> leave the
  store as it is (no row changes and no statement is executed), and \<open>ensurePlayerStats\<close>
  does the same and returns \<open>null\<close>. And whatever the name, none of the four creates or
  changes a row under the empty key.
\<close>

theorem blank_name_dropped:
  "(trim (case nm of None \<Rightarrow> [] | Some s \<Rightarrow> s) = [] \<longrightarrow>
      addWin nm d = d \<and> addLoss nm d = d \<and> addDraw nm d = d
      \<and> ensurePlayerStats nm d = (d, None))
   \<and> players (addWin nm d) [] = players d []
   \<and> players (addLoss nm d) [] = players d []
   \<and> players (addDraw nm d) [] = players d []
   \<and> players (fst (ensurePlayerStats nm d)) [] = players d []"
  by (auto simp: addWin_def addLoss_def addDraw_def ensurePlayerStats_def Let_def
      normalizeName_blank execute_other_key)

text \<open>A name of three spaces on the empty store; a name that is not blank does write.\<close>

theorem blank_name_dropped_witness:
  "trim (ascii ''   '') = []
   \<and> addWin (Some (ascii ''   '')) \<lparr>players = Map.empty, writes = 0\<rparr>
       = \<lparr>players = Map.empty, writes = 0\<rparr>
   \<and> addLoss (Some (ascii ''   '')) \<lparr>players = Map.empty, writes = 0\<rparr>
       = \<lparr>players = Map.empty, writes = 0\<rparr>
   \<and> addDraw (Some (ascii ''   '')) \<lparr>players = Map.empty, writes = 0\<rparr>
       = \<lparr>players = Map.empty, writes = 0\<rparr>
   \<and> ensurePlayerStats (Some (ascii ''   '')) \<lparr>players = Map.empty, writes = 0\<rparr>
       = (\<lparr>players = Map.empty, writes = 0\<rparr>, None)
   \<and> writes (addWin (Some (ascii ''Bob'')) \<lparr>players = Map.empty, writes = 0\<rparr>) = 1"
  using blank_name_dropped [of "Some (ascii ''   '')" "\<lparr>players = Map.empty, writes = 0\<rparr>"]
  by (simp add: trim_def ascii_def js_ws_def addWin_def normalizeName_def execute_def)

section \<open>What startMatch does to the heap\<close>

lemma map_update_same: "f x = f (xs ! i) \<Longrightarrow> map f (xs[i := x]) = map f xs"
  by (induction xs arbitrary: i) (auto split: nat.splits)

lemma nth_of_map: "map f xs = ys \<Longrightarrow> i < length ys \<Longrightarrow> f (xs ! i) = ys ! i"
  by auto

lemma startMatch_length [simp]: "length (heap (fst (startMatch d p1 p2 s))) = length (heap s)"
  by (simp add: startMatch_def Let_def)

lemma startMatch_pid: "map pid (heap (fst (startMatch d p1 p2 s))) = map pid (heap s)"
  by (simp add: startMatch_def Let_def map_update_same)

lemma startMatch_name: "map name (heap (fst (startMatch d p1 p2 s))) = map name (heap s)"
  by (simp add: startMatch_def Let_def map_update_same)

lemma startMatch_cur [simp]: "cur (fst (startMatch d p1 p2 s)) = cur s"
  by (simp add: startMatch_def Let_def)

lemma startMatch_queue [simp]: "waitingQueue (fst (startMatch d p1 p2 s)) = waitingQueue s"
  by (simp add: startMatch_def Let_def)

section \<open>An invariant of the server\<close>

lemma startMatch_pending [simp]: "pending (fst (startMatch d p1 p2 s)) = pending s"
  by (simp add: startMatch_def Let_def)

lemma nth_update_field: "f v = f (xs ! j) \<Longrightarrow> f (xs[j := v] ! i) = f (xs ! i)"
  by (cases "j < length xs") (auto simp: nth_list_update list_update_beyond)

lemma startMatch_pid_nth: "pid (heap (fst (startMatch d p1 p2 s)) ! i) = pid (heap s ! i)"
  by (simp add: startMatch_def Let_def nth_update_field)

lemma startMatch_name_nth: "name (heap (fst (startMatch d p1 p2 s)) ! i) = name (heap s ! i)"
  by (simp add: startMatch_def Let_def nth_update_field)

lemma startMatch_games:
  "games (fst (startMatch d p1 p2 s)) =
     AList.update (match_id (pid (heap s ! p1)) (pid (heap s ! p2)))
       (new_game (match_id (pid (heap s ! p1)) (pid (heap s ! p2)))
          (if d then p1 else p2) (if d then p2 else p1)) (games s)"
  by (auto simp: startMatch_def Let_def new_game_def)

lemma set_update_subset: "set (AList.update k v al) \<subseteq> insert (k, v) (set al)"
  by (induction al) auto

lemma set_delete_eq: "set (AList.delete k al) = {kv \<in> set al. fst kv \<noteq> k}"
  by (auto simp: AList.delete_eq)

lemma delete_update_subset: "set (AList.delete k (AList.update k v al)) \<subseteq> set al"
  using set_update_subset[of k v al] by (auto simp: set_delete_eq)

lemma set_remove_first: "set (remove_first P xs) \<subseteq> set xs"
  by (induction xs) auto

lemma length_remove_first: "length (remove_first P xs) \<le> length xs"
  by (induction xs) auto

lemma empty_board_open: "\<not> completed (replicate 9 Empty)"
  by (auto simp: completed_def holds_def at_def lines_def)

lemma wf_parts:
  "wf s \<longleftrightarrow> refs_ok s \<and> distinct (map fst (games s))
     \<and> (\<forall>(k, g) \<in> set (games s). game_ok (length (heap s)) k g)"
  by (auto simp: wf_def refs_ok_def game_ok_def)

lemma wf_init: "wf init"
  by (simp add: wf_parts refs_ok_def init_def)

lemma wf_join_start:
  assumes "wf s"
  shows "wf (fst (join_start sid nm s))"
proof -
  let ?pl = "\<lparr>pid = sid, name = name_or_id nm sid, mark = MarkX, gameId = None\<rparr>"
  from assms have r: "refs_ok s" and dg: "distinct (map fst (games s))"
    and ag: "\<forall>(k, g) \<in> set (games s). game_ok (length (heap s)) k g"
    by (auto simp: wf_parts)
  have c: "p < length (heap s) \<and> pid (heap s ! p) = sid'" if "cur s sid' = Some p" for sid' p
    using r that by (simp add: refs_ok_def)
  have "refs_ok (fst (join_start sid nm s))"
    unfolding refs_ok_def join_start_def Let_def fst_conv
  proof (intro conjI ballI allI impI)
    show "length (waitingQueue (s\<lparr>heap := heap s @ [?pl], cur := (cur s)(sid \<mapsto> length (heap s)),
        pending := pending s @ [sid]\<rparr>)) \<le> 1"
      using r by (simp add: refs_ok_def)
  next
    fix p assume "p \<in> set (waitingQueue (s\<lparr>heap := heap s @ [?pl],
        cur := (cur s)(sid \<mapsto> length (heap s)), pending := pending s @ [sid]\<rparr>))"
    then show "p < length (heap (s\<lparr>heap := heap s @ [?pl],
        cur := (cur s)(sid \<mapsto> length (heap s)), pending := pending s @ [sid]\<rparr>))"
      using r by (auto simp: refs_ok_def less_SucI)
  next
    fix sid' p assume a: "cur (s\<lparr>heap := heap s @ [?pl],
        cur := (cur s)(sid \<mapsto> length (heap s)), pending := pending s @ [sid]\<rparr>) sid' = Some p"
    show "p < length (heap (s\<lparr>heap := heap s @ [?pl],
        cur := (cur s)(sid \<mapsto> length (heap s)), pending := pending s @ [sid]\<rparr>))"
      using a c[of sid' p] by (cases "sid' = sid") (auto simp: less_SucI)
    show "pid (heap (s\<lparr>heap := heap s @ [?pl],
        cur := (cur s)(sid \<mapsto> length (heap s)), pending := pending s @ [sid]\<rparr>) ! p) = sid'"
      using a c[of sid' p] by (cases "sid' = sid") (auto simp: nth_append)
  next
    fix sid' assume "sid' \<in> set (pending (s\<lparr>heap := heap s @ [?pl],
        cur := (cur s)(sid \<mapsto> length (heap s)), pending := pending s @ [sid]\<rparr>))"
    then show "cur (s\<lparr>heap := heap s @ [?pl],
        cur := (cur s)(sid \<mapsto> length (heap s)), pending := pending s @ [sid]\<rparr>) sid' \<noteq> None"
      using r by (auto simp: refs_ok_def)
  qed
  moreover have "\<forall>(k, g) \<in> set (games s). game_ok (Suc (length (heap s))) k g"
    using ag by (auto simp: game_ok_def less_SucI)
  ultimately show ?thesis
    using dg by (simp add: wf_parts) (simp add: join_start_def Let_def)
qed

lemma games_ok_update:
  assumes "distinct (map fst gs)" "\<forall>(k, g) \<in> set gs. game_ok n k g" "game_ok n k0 g0"
  shows "distinct (map fst (AList.update k0 g0 gs))
     \<and> (\<forall>(k, g) \<in> set (AList.update k0 g0 gs). game_ok n k g)"
  using assms set_update_subset[of k0 g0 gs]
  by (auto simp: AList.distinct_update)

lemma games_ok_subset:
  assumes "distinct (map fst gs)" "\<forall>(k, g) \<in> set gs. game_ok n k g"
    "set gs' \<subseteq> set gs" "distinct (map fst gs')"
  shows "distinct (map fst gs') \<and> (\<forall>(k, g) \<in> set gs'. game_ok n k g)"
  using assms by auto

lemma wf_startMatch:
  assumes "wf s" "p1 < length (heap s)" "p2 < length (heap s)"
  shows "wf (fst (startMatch d p1 p2 s))"
proof -
  let ?k = "match_id (pid (heap s ! p1)) (pid (heap s ! p2))"
  let ?g = "new_game ?k (if d then p1 else p2) (if d then p2 else p1)"
  have g: "game_ok (length (heap s)) ?k ?g"
    using assms(2,3) by (simp add: game_ok_def new_game_def empty_board_open)
  from assms(1) have "refs_ok (fst (startMatch d p1 p2 s))"
    by (simp add: wf_parts refs_ok_def startMatch_pid_nth)
  moreover from assms(1) g
  have "distinct (map fst (games (fst (startMatch d p1 p2 s))))
     \<and> (\<forall>(k, g) \<in> set (games (fst (startMatch d p1 p2 s))).
           game_ok (length (heap (fst (startMatch d p1 p2 s)))) k g)"
    unfolding startMatch_games startMatch_length wf_parts
    by (intro games_ok_update) auto
  ultimately show ?thesis by (simp add: wf_parts)
qed

lemma wf_unpend: "wf s \<Longrightarrow> wf (s\<lparr>pending := remove1 sid (pending s)\<rparr>)"
  unfolding wf_parts refs_ok_def using set_remove1_subset[of sid "pending s"] by auto

lemma wf_queue:
  assumes "wf s" "length q \<le> 1" "\<forall>p \<in> set q. p < length (heap s)"
  shows "wf (s\<lparr>waitingQueue := q\<rparr>)"
  using assms unfolding wf_parts refs_ok_def by auto

lemma wf_join_resume: "wf s \<Longrightarrow> wf (fst (join_resume sid rep d s))"
proof -
  assume wf: "wf s"
  let ?s0 = "s\<lparr>pending := remove1 sid (pending s)\<rparr>"
  have wf0: "wf ?s0" by (rule wf_unpend[OF wf])
  show ?thesis
  proof (cases "sid \<in> set (pending s)")
    case False
    with wf show ?thesis by (simp add: join_resume_def)
  next
    case True
    show ?thesis
    proof (cases rep)
      case Rejected
      with True wf0 show ?thesis by (simp add: join_resume_def)
    next
      case (Resolved st)
      show ?thesis
      proof (cases "cur s sid")
        case None
        with True Resolved wf0 show ?thesis by (simp add: join_resume_def)
      next
        case (Some p)
        with wf have p: "p < length (heap s)" by (auto simp: wf_def)
        show ?thesis
        proof (cases "waitingQueue s")
          case Nil
          have "wf (?s0\<lparr>waitingQueue := [p]\<rparr>)"
            using p by (intro wf_queue[OF wf0]) auto
          with True Resolved Some Nil show ?thesis
            by (simp add: join_resume_def Let_def)
        next
          case (Cons a q)
          with wf have q: "q = []" and a: "a < length (heap s)" by (auto simp: wf_def)
          have "wf (?s0\<lparr>waitingQueue := []\<rparr>)"
            by (intro wf_queue[OF wf0]) auto
          from wf_startMatch[OF this, of a p d] a p
          have "wf (fst (startMatch d a p (?s0\<lparr>waitingQueue := []\<rparr>)))" by simp
          with True Resolved Some Cons q show ?thesis
            by (simp add: join_resume_def Let_def case_prod_beta)
        qed
      qed
    qed
  qed
qed

lemma wf_lookup:
  assumes "wf s" "map_of (games s) k = Some g"
  shows "game_ok (length (heap s)) k g"
proof -
  from assms(2) have "(k, g) \<in> set (games s)" by (rule map_of_SomeD)
  with assms(1) show ?thesis unfolding wf_parts by auto
qed

lemma wf_games:
  assumes "wf s" "distinct (map fst gs)" "\<forall>(k, g) \<in> set gs. game_ok (length (heap s)) k g"
  shows "wf (s\<lparr>games := gs\<rparr>)"
  using assms unfolding wf_parts refs_ok_def by auto

lemma open_board: "checkWinner b = None \<Longrightarrow> \<not> completed b"
  using checkWinner_cases[of b MarkX] by simp

lemma wf_move: "wf s \<Longrightarrow> wf (fst (move sid k i s))"
proof -
  assume wf: "wf s"
  then have dg: "distinct (map fst (games s))"
    and ag: "\<forall>(k, g) \<in> set (games s). game_ok (length (heap s)) k g"
    by (auto simp: wf_parts)
  show ?thesis
  proof (cases "map_of (games s) k")
    case None
    with wf show ?thesis by (simp add: move_def)
  next
    case (Some g)
    note lk = wf_lookup[OF wf Some]
    have d: "wf (s\<lparr>games := AList.delete k (AList.update k g' (games s))\<rparr>)" for g'
      using dg ag delete_update_subset[of k g' "games s"]
      by (intro wf_games[OF wf]) (auto simp: AList.distinct_update AList.distinct_delete)
    have u: "wf (s\<lparr>games := AList.update k (g\<lparr>board := (board g)[n := c], turn := t\<rparr>) (games s)\<rparr>)"
      if "checkWinner ((board g)[n := c]) = None" for n c t
    proof -
      have "game_ok (length (heap s)) k (g\<lparr>board := (board g)[n := c], turn := t\<rparr>)"
        using lk open_board[OF that] by (simp add: game_ok_def)
      with games_ok_update[OF dg ag this] show ?thesis
        by (intro wf_games[OF wf]) auto
    qed
    from lk have gk: "gid g = k" by (simp add: game_ok_def)
    show ?thesis
      using wf Some gk d u
      by (auto simp: move_def Let_def split: option.splits)
  qed
qed

lemma forfeit_loop_find:
  "forfeit_loop sid s gs =
     (case find (\<lambda>(k, g). involves (heap s) sid g) gs of
        None \<Rightarrow> (s, [])
      | Some (k, g) \<Rightarrow> forfeit sid s k g)"
  by (induction gs) auto

lemma forfeit_loop2_find:
  "forfeit_loop2 sid s gs =
     (case find (\<lambda>(k, g). involves (heap s) sid g) gs of
        None \<Rightarrow> (s, [])
      | Some (k, g) \<Rightarrow> forfeit2 sid s k g)"
  by (induction gs) auto

lemma find_in_set: "find P xs = Some x \<Longrightarrow> x \<in> set xs \<and> P x"
  by (induction xs) (auto split: if_splits)

lemma wf_disconnect: "wf s \<Longrightarrow> wf (fst (disconnect sid s))"
proof -
  assume wf: "wf s"
  let ?q = "remove_first (\<lambda>p. pid (heap s ! p) = sid) (waitingQueue s)"
  let ?s1 = "s\<lparr>waitingQueue := ?q\<rparr>"
  have wf1: "wf ?s1"
    using wf set_remove_first[of _ "waitingQueue s"] length_remove_first[of _ "waitingQueue s"]
    by (intro wf_queue[OF wf]) (auto simp: wf_def intro: order_trans)
  then have dg: "distinct (map fst (games ?s1))"
    and ag: "\<forall>(k, g) \<in> set (games ?s1). game_ok (length (heap ?s1)) k g"
    by (auto simp: wf_parts)
  show ?thesis
  proof (cases "find (\<lambda>(k, g). involves (heap ?s1) sid g) (games ?s1)")
    case None
    with wf1 show ?thesis by (simp add: disconnect_def forfeit_loop_find)
  next
    case (Some kg)
    obtain k g where [simp]: "kg = (k, g)" by (cases kg)
    from Some have "(k, g) \<in> set (games ?s1)" by (auto dest: find_in_set)
    with ag have "gid g = k" by (auto simp: game_ok_def)
    moreover have "wf (?s1\<lparr>games := AList.delete k (AList.update k g' (games ?s1))\<rparr>)" for g'
      using dg ag delete_update_subset[of k g' "games ?s1"]
      by (intro wf_games[OF wf1]) (auto simp: AList.distinct_update AList.distinct_delete)
    ultimately show ?thesis
      using Some by (simp add: disconnect_def forfeit_loop_find forfeit_def Let_def)
  qed
qed

lemma handle_wf: "wf s \<Longrightarrow> wf (fst (handle e s))"
  by (cases e) (simp_all add: wf_join_start wf_join_resume wf_move wf_disconnect)

lemma reachable_wf: "reachable s \<Longrightarrow> wf s"
  by (induction rule: reachable.induct) (simp_all add: wf_init handle_wf)

lemma run_wf: "wf s \<Longrightarrow> wf (run es s)"
  by (induction es arbitrary: s) (simp_all add: handle_wf)

lemma reachable_run: "reachable s \<Longrightarrow> reachable (run es s)"
  by (induction es arbitrary: s) (auto intro: reachable.step)

section \<open>Scenarios\<close>

lemmas handler_defs = init_def join_start_def join_resume_def joined_def name_or_id_def
  startMatch_def move_def disconnect_def
  forfeit_def involves_def first_match_def flip_def at_def new_game_def
  persistResultSafe_def trimmed_or_def AList.delete_eq Let_def

lemmas board_defs = checkWinner_def lines_def line_mark_def

text \<open>The identifiers of the scenarios, written out, and where the scenarios lead.\<close>

lemma ids:
  "alice = [0x61, 0x6C, 0x69, 0x63, 0x65]" "bob = [0x62, 0x6F, 0x62]"
  "carol = [0x63, 0x61, 0x72, 0x6F, 0x6C]" "dave = [0x64, 0x61, 0x76, 0x65]"
  by (simp_all add: alice_def bob_def carol_def dave_def ascii_def)

lemma ids_neq [simp]:
  "alice \<noteq> bob" "alice \<noteq> carol" "alice \<noteq> dave" "bob \<noteq> alice" "bob \<noteq> carol" "bob \<noteq> dave"
  "carol \<noteq> alice" "carol \<noteq> bob" "carol \<noteq> dave" "dave \<noteq> alice" "dave \<noteq> bob" "dave \<noteq> carol"
  by (simp_all add: ids)

lemma ids2:
  "alice1 = [0x61, 0x6C, 0x69, 0x63, 0x65, 0x2D, 0x31]"
  "bobby1 = [0x62, 0x6F, 0x62, 0x62, 0x79, 0x2D, 0x31]"
  "alice2 = [0x61, 0x6C, 0x69, 0x63, 0x65, 0x2D, 0x32]"
  "bobby2 = [0x62, 0x6F, 0x62, 0x62, 0x79, 0x2D, 0x32]"
  by (simp_all add: alice1_def bobby1_def alice2_def bobby2_def ascii_def)

lemma ids2_neq [simp]:
  "alice1 \<noteq> bobby1" "alice1 \<noteq> alice2" "alice1 \<noteq> bobby2" "bobby1 \<noteq> alice1" "bobby1 \<noteq> alice2"
  "bobby1 \<noteq> bobby2" "alice2 \<noteq> alice1" "alice2 \<noteq> bobby1" "alice2 \<noteq> bobby2" "bobby2 \<noteq> alice1"
  "bobby2 \<noteq> bobby1" "bobby2 \<noteq> alice2"
  by (simp_all add: ids2)

lemma same_match_id: "match_id alice2 bobby2 = match_id alice1 bobby1"
  by (simp add: match_id_def ids2)

lemma match_ids_neq [simp]:
  "match_id alice bob \<noteq> match_id alice carol" "match_id alice carol \<noteq> match_id alice bob"
  "match_id alice bob \<noteq> match_id carol dave" "match_id carol dave \<noteq> match_id alice bob"
  by (simp_all add: match_id_def ids)

lemma run_append: "run (xs @ ys) s = run ys (run xs s)"
  by (induction xs arbitrary: s) auto

lemma run_alice_bob:
  "run alice_bob init =
     \<lparr>heap = [\<lparr>pid = alice, name = alice, mark = MarkX, gameId = Some (match_id alice bob)\<rparr>,
              \<lparr>pid = bob, name = bob, mark = MarkO, gameId = Some (match_id alice bob)\<rparr>],
      cur = (\<lambda>_. None)(alice := Some 0, bob := Some 1),
      waitingQueue = [],
      games = [(match_id alice bob, new_game (match_id alice bob) 0 1)],
      pending = []\<rparr>"
  by (simp add: alice_bob_def handler_defs)

lemma run_alice_thrice:
  "run alice_thrice init =
     \<lparr>heap = [\<lparr>pid = alice, name = alice, mark = MarkX, gameId = Some (match_id alice bob)\<rparr>,
              \<lparr>pid = bob, name = bob, mark = MarkO, gameId = Some (match_id alice bob)\<rparr>,
              \<lparr>pid = alice, name = alice, mark = MarkX, gameId = Some (match_id alice carol)\<rparr>,
              \<lparr>pid = carol, name = carol, mark = MarkO, gameId = Some (match_id alice carol)\<rparr>,
              \<lparr>pid = alice, name = alice, mark = MarkX, gameId = None\<rparr>],
      cur = (\<lambda>_. None)(alice := Some 4, bob := Some 1, carol := Some 3),
      waitingQueue = [4],
      games = [(match_id alice bob, new_game (match_id alice bob) 0 1),
               (match_id alice carol, new_game (match_id alice carol) 2 3)],
      pending = []\<rparr>"
  unfolding alice_thrice_def run_append run_alice_bob
  by (simp add: handler_defs fun_upd_twist eval_nat_numeral)

lemma run_collision:
  "run collision init =
     \<lparr>heap = [\<lparr>pid = alice1, name = alice1, mark = MarkX, gameId = Some (match_id alice1 bobby1)\<rparr>,
              \<lparr>pid = bobby1, name = bobby1, mark = MarkO, gameId = Some (match_id alice1 bobby1)\<rparr>,
              \<lparr>pid = alice2, name = alice2, mark = MarkX, gameId = Some (match_id alice1 bobby1)\<rparr>,
              \<lparr>pid = bobby2, name = bobby2, mark = MarkO, gameId = Some (match_id alice1 bobby1)\<rparr>],
      cur = (\<lambda>_. None)(alice1 := Some 0, bobby1 := Some 1, alice2 := Some 2, bobby2 := Some 3),
      waitingQueue = [],
      games = [(match_id alice1 bobby1, new_game (match_id alice1 bobby1) 2 3)],
      pending = []\<rparr>"
  by (simp add: collision_def handler_defs same_match_id eval_nat_numeral)

lemma run_rejoin:
  "run rejoin init =
     \<lparr>heap = [\<lparr>pid = alice, name = alice, mark = MarkX, gameId = Some (match_id alice bob)\<rparr>,
              \<lparr>pid = bob, name = bob, mark = MarkO, gameId = Some (match_id alice bob)\<rparr>,
              \<lparr>pid = alice, name = alice, mark = MarkX, gameId = None\<rparr>],
      cur = (\<lambda>_. None)(alice := Some 2, bob := Some 1),
      waitingQueue = [2],
      games = [(match_id alice bob, new_game (match_id alice bob) 0 1)],
      pending = []\<rparr>"
  unfolding rejoin_def run_append run_alice_bob
  by (simp add: handler_defs fun_upd_twist eval_nat_numeral)

lemma run_won_game:
  "run won_game init =
     \<lparr>heap = [\<lparr>pid = alice, name = alice, mark = MarkX, gameId = Some (match_id alice bob)\<rparr>,
              \<lparr>pid = bob, name = bob, mark = MarkO, gameId = Some (match_id alice bob)\<rparr>],
      cur = (\<lambda>_. None)(alice := Some 0, bob := Some 1),
      waitingQueue = [], games = [], pending = []\<rparr>"
  by (simp add: won_game_def handler_defs board_defs eval_nat_numeral)

lemma run_before_win:
  "run (butlast won_game) init =
     \<lparr>heap = [\<lparr>pid = alice, name = alice, mark = MarkX, gameId = Some (match_id alice bob)\<rparr>,
              \<lparr>pid = bob, name = bob, mark = MarkO, gameId = Some (match_id alice bob)\<rparr>],
      cur = (\<lambda>_. None)(alice := Some 0, bob := Some 1),
      waitingQueue = [],
      games = [(match_id alice bob,
                \<lparr>gid = match_id alice bob,
                 board = [Mk MarkX, Mk MarkX, Empty, Mk MarkO, Mk MarkO, Empty, Empty, Empty, Empty],
                 playerX = 0, playerO = 1, turn = MarkX, finished = False\<rparr>)],
      pending = []\<rparr>"
  by (simp add: won_game_def handler_defs board_defs eval_nat_numeral)

lemma run_rematch:
  "run rematch init =
     \<lparr>heap = [\<lparr>pid = alice, name = alice, mark = MarkX, gameId = Some (match_id alice bob)\<rparr>,
              \<lparr>pid = bob, name = bob, mark = MarkO, gameId = Some (match_id alice bob)\<rparr>,
              \<lparr>pid = alice, name = alice, mark = MarkX, gameId = Some (match_id alice bob)\<rparr>,
              \<lparr>pid = bob, name = bob, mark = MarkO, gameId = Some (match_id alice bob)\<rparr>],
      cur = (\<lambda>_. None)(alice := Some 2, bob := Some 3),
      waitingQueue = [],
      games = [(match_id alice bob, new_game (match_id alice bob) 2 3)],
      pending = []\<rparr>"
  unfolding rematch_def run_append run_won_game
  by (simp add: alice_bob_def handler_defs eval_nat_numeral)

lemma run_alice_late:
  "run alice_late init =
     \<lparr>heap = [\<lparr>pid = alice, name = alice, mark = MarkX, gameId = None\<rparr>,
              \<lparr>pid = bob, name = bob, mark = MarkX, gameId = Some (match_id bob carol)\<rparr>,
              \<lparr>pid = carol, name = carol, mark = MarkO, gameId = Some (match_id bob carol)\<rparr>],
      cur = (\<lambda>_. None)(alice := Some 0, bob := Some 1, carol := Some 2),
      waitingQueue = [0],
      games = [(match_id bob carol, new_game (match_id bob carol) 1 2)],
      pending = []\<rparr>"
  by (simp add: alice_late_def handler_defs eval_nat_numeral)


section \<open>The boards that are evaluated\<close>





lemma move_ok_fields:
  assumes "move_ok sid k i s"
  obtains g p where "map_of (games s) k = Some g" "cur s sid = Some p"
    "\<not> finished g" "gameId (heap s ! p) = Some k" "turn g = mark (heap s ! p)"
    "0 \<le> i" "i \<le> 8" "at (board g) (nat i) = Some Empty"
  using assms by (auto simp: move_ok_def split: option.splits)



section \<open>Disconnecting\<close>

lemma first_match_props:
  assumes "first_match sid s = Some (k, g)"
  shows "(k, g) \<in> set (games s)" "involves (heap s) sid g"
  using assms find_in_set[of "\<lambda>(k, g). involves (heap s) sid g" "games s" "(k, g)"]
  by (auto simp: first_match_def)

lemma disconnect_first_match:
  assumes "first_match sid s = Some (k, g)"
  shows "disconnect sid s =
     forfeit sid (s\<lparr>waitingQueue := remove_first (\<lambda>p. pid (heap s ! p) = sid) (waitingQueue s)\<rparr>) k g"
    "disconnect2 sid s =
     forfeit2 sid (s\<lparr>waitingQueue := remove_first (\<lambda>p. pid (heap s ! p) = sid) (waitingQueue s)\<rparr>) k g"
  using assms
  by (simp_all add: disconnect_def disconnect2_def forfeit_loop_find forfeit_loop2_find
      first_match_def)

lemma disconnect_no_match:
  assumes "first_match sid s = None"
  shows "disconnect sid s =
     (s\<lparr>waitingQueue := remove_first (\<lambda>p. pid (heap s ! p) = sid) (waitingQueue s)\<rparr>, [])"
  using assms by (simp add: disconnect_def forfeit_loop_find first_match_def)




lemma remove_first_none: "\<forall>x \<in> set xs. \<not> P x \<Longrightarrow> remove_first P xs = xs"
  by (induction xs) auto

lemma remove_first_split:
  "\<forall>x \<in> set pre. \<not> P x \<Longrightarrow> P x \<Longrightarrow> remove_first P (pre @ x # post) = pre @ post"
  by (induction pre) auto

lemma find_none: "\<forall>x \<in> set xs. \<not> P x \<Longrightarrow> find P xs = None"
  by (induction xs) auto

lemma find_split: "\<forall>x \<in> set pre. \<not> P x \<Longrightarrow> P x \<Longrightarrow> find P (pre @ x # post) = Some x"
  by (induction pre) auto

lemma update_split:
  "k \<notin> fst ` set pre \<Longrightarrow> AList.update k v (pre @ (k, u) # post) = pre @ (k, v) # post"
  by (induction pre) auto

lemma delete_split:
  "k \<notin> fst ` set pre \<Longrightarrow> k \<notin> fst ` set post \<Longrightarrow>
     AList.delete k (pre @ (k, v) # post) = pre @ post"
  by (induction pre) auto

text \<open>
  C10. A disconnect leaves the heap, the connections' player variables and the suspended
  joins as they are. In every state, it removes from the waiting queue the first entry
  of the disconnecting identity and nothing else (nothing when there is none), so every
  other entry, a further entry of that identity included, stays where it is. In every
  state the server reaches, it removes from the registry the first game that has the
  identity as a player and nothing else (nothing when there is none), every other game
  staying as it was, in its place.
\<close>

theorem disconnect_frame:
  "heap (fst (disconnect sid s)) = heap s \<and> cur (fst (disconnect sid s)) = cur s
   \<and> pending (fst (disconnect sid s)) = pending s
   \<and> ((\<forall>p \<in> set (waitingQueue s). pid (heap s ! p) \<noteq> sid)
         \<longrightarrow> waitingQueue (fst (disconnect sid s)) = waitingQueue s)
   \<and> (waitingQueue s = pre @ p # post \<and> (\<forall>q \<in> set pre. pid (heap s ! q) \<noteq> sid)
         \<and> pid (heap s ! p) = sid
         \<longrightarrow> waitingQueue (fst (disconnect sid s)) = pre @ post)
   \<and> (reachable s \<and> (\<forall>(k, g) \<in> set (games s). \<not> involves (heap s) sid g)
         \<longrightarrow> games (fst (disconnect sid s)) = games s)
   \<and> (reachable s \<and> games s = gpre @ (k, g) # gpost
         \<and> (\<forall>(k', g') \<in> set gpre. \<not> involves (heap s) sid g')
         \<and> involves (heap s) sid g
         \<longrightarrow> games (fst (disconnect sid s)) = gpre @ gpost)"
proof -
  let ?q = "remove_first (\<lambda>p. pid (heap s ! p) = sid) (waitingQueue s)"
  have frame: "heap (fst (disconnect sid s)) = heap s \<and> cur (fst (disconnect sid s)) = cur s
      \<and> pending (fst (disconnect sid s)) = pending s
      \<and> waitingQueue (fst (disconnect sid s)) = ?q"
    by (cases "first_match sid s")
       (auto simp: disconnect_no_match disconnect_first_match forfeit_def Let_def)
  have q1: "?q = waitingQueue s" if "\<forall>p \<in> set (waitingQueue s). pid (heap s ! p) \<noteq> sid"
    using that by (simp add: remove_first_none)
  have q2: "?q = pre @ post" if "waitingQueue s = pre @ p # post"
    "\<forall>q \<in> set pre. pid (heap s ! q) \<noteq> sid" "pid (heap s ! p) = sid"
    using that by (simp add: remove_first_split)
  have g1: "games (fst (disconnect sid s)) = games s"
    if "\<forall>(k, g) \<in> set (games s). \<not> involves (heap s) sid g"
  proof -
    from that have "first_match sid s = None"
      unfolding first_match_def by (intro find_none) auto
    then show ?thesis by (simp add: disconnect_no_match)
  qed
  have g2: "games (fst (disconnect sid s)) = gpre @ gpost"
    if r: "reachable s" and sp: "games s = gpre @ (k, g) # gpost"
      and pre: "\<forall>(k', g') \<in> set gpre. \<not> involves (heap s) sid g'"
      and inv: "involves (heap s) sid g"
  proof -
    from r have wf: "wf s" by (rule reachable_wf)
    from pre inv have fm: "first_match sid s = Some (k, g)"
      unfolding first_match_def sp by (intro find_split) auto
    from wf sp have "gid g = k" unfolding wf_def by fastforce
    moreover from wf sp have "k \<notin> fst ` set gpre" "k \<notin> fst ` set gpost"
      unfolding wf_def by auto
    ultimately show ?thesis
      by (simp add: disconnect_first_match[OF fm] forfeit_def Let_def sp update_split delete_split)
  qed
  show ?thesis
  proof (intro conjI impI)
    show "heap (fst (disconnect sid s)) = heap s" "cur (fst (disconnect sid s)) = cur s"
      "pending (fst (disconnect sid s)) = pending s"
      using frame by simp_all
    show "waitingQueue (fst (disconnect sid s)) = waitingQueue s"
      if "\<forall>p \<in> set (waitingQueue s). pid (heap s ! p) \<noteq> sid"
      using frame q1[OF that] by simp
    show "waitingQueue (fst (disconnect sid s)) = pre @ post"
      if "waitingQueue s = pre @ p # post \<and> (\<forall>q \<in> set pre. pid (heap s ! q) \<noteq> sid)
          \<and> pid (heap s ! p) = sid"
      using frame q2 that by simp
    show "games (fst (disconnect sid s)) = games s"
      if "reachable s \<and> (\<forall>(k, g) \<in> set (games s). \<not> involves (heap s) sid g)"
      using g1 that by blast
    show "games (fst (disconnect sid s)) = gpre @ gpost"
      if "reachable s \<and> games s = gpre @ (k, g) # gpost
          \<and> (\<forall>(k', g') \<in> set gpre. \<not> involves (heap s) sid g')
          \<and> involves (heap s) sid g"
      using g2 that by blast
  qed
qed

text \<open>
  A queue of \<open>bob\<close> and two objects of \<open>alice\<close>: her disconnect removes the first of
  the two and leaves the second. And \<open>alice\<close> after three joins, a player of two
  registered games and waiting in the queue: her disconnect empties the queue and
  forfeits the first game only.
\<close>

theorem disconnect_frame_witness:
  "waitingQueue (fst (disconnect alice
      \<lparr>heap = [\<lparr>pid = bob, name = bob, mark = MarkX, gameId = None\<rparr>,
               \<lparr>pid = alice, name = alice, mark = MarkX, gameId = None\<rparr>,
               \<lparr>pid = alice, name = alice, mark = MarkX, gameId = None\<rparr>],
       cur = (\<lambda>_. None)(bob := Some 0, alice := Some 2),
       waitingQueue = [0, 1, 2], games = [], pending = []\<rparr>)) = [0, 2]
   \<and> waitingQueue (fst (disconnect alice (run alice_thrice init))) = []
   \<and> games (fst (disconnect alice (run alice_thrice init)))
     = [(match_id alice carol, new_game (match_id alice carol) 2 3)]"
proof -
  have r: "reachable (run alice_thrice init)"
    by (rule reachable_run[OF reachable.start])
  show ?thesis
    using disconnect_frame[of alice "run alice_thrice init" "[]" 4 "[]" "[]" "match_id alice bob"
        "new_game (match_id alice bob) 0 1"
        "[(match_id alice carol, new_game (match_id alice carol) 2 3)]"] r
      disconnect_frame[of alice
        "\<lparr>heap = [\<lparr>pid = bob, name = bob, mark = MarkX, gameId = None\<rparr>,
               \<lparr>pid = alice, name = alice, mark = MarkX, gameId = None\<rparr>,
               \<lparr>pid = alice, name = alice, mark = MarkX, gameId = None\<rparr>],
           cur = (\<lambda>_. None)(bob := Some 0, alice := Some 2),
           waitingQueue = [0, 1, 2], games = [], pending = []\<rparr>" "[0]" 1 "[2]" "[]"
        "match_id alice bob" "new_game (match_id alice bob) 0 1" "[]", THEN conjunct2,
        THEN conjunct2, THEN conjunct2, THEN conjunct2, THEN conjunct1]
    unfolding run_alice_thrice
    by (simp add: involves_def new_game_def)
qed

section \<open>Creating a match\<close>

text \<open>
  C7. For two distinct allocated player objects, \<open>startMatch\<close> gives \<open>X\<close>, the mark that
  moves first, to the first object when the draw \<open>Math.random() < 0.5\<close> succeeds and to
  the second when it fails, and \<open>O\<close> to the other one; it registers under the match
  identifier a game that is not finished, whose turn is \<open>X\<close> and whose board is nine empty
  cells; and it sets the \<open>gameId\<close> of both objects to that identifier.
\<close>

theorem startMatch_assigns:
  assumes "p1 \<noteq> p2" "p1 < length (heap s)" "p2 < length (heap s)"
  shows "(let k = match_id (pid (heap s ! p1)) (pid (heap s ! p2));
              s' = fst (startMatch d p1 p2 s);
              x = (if d then p1 else p2);
              y = (if d then p2 else p1)
          in map_of (games s') k = Some \<lparr>gid = k, board = replicate 9 Empty, playerX = x,
                                         playerO = y, turn = MarkX, finished = False\<rparr>
             \<and> length (replicate 9 Empty :: cell list) = 9
             \<and> mark (heap s' ! x) = MarkX \<and> mark (heap s' ! y) = MarkO
             \<and> gameId (heap s' ! p1) = Some k \<and> gameId (heap s' ! p2) = Some k)"
  using assms
  by (auto simp: startMatch_def Let_def AList.update_conv')

text \<open>\<open>alice\<close> and \<open>bob\<close> as \<open>join\<close> hands them over; the draw fails, so \<open>bob\<close> plays \<open>X\<close>.\<close>

theorem startMatch_assigns_witness:
  "map_of (games (fst (startMatch False 0 1
      \<lparr>heap = [\<lparr>pid = alice, name = alice, mark = MarkX, gameId = None\<rparr>,
               \<lparr>pid = bob, name = bob, mark = MarkX, gameId = None\<rparr>],
       cur = (\<lambda>_. None)(alice := Some 0, bob := Some 1),
       waitingQueue = [], games = [], pending = []\<rparr>))) (match_id alice bob)
     = Some \<lparr>gid = match_id alice bob, board = replicate 9 Empty, playerX = 1,
             playerO = 0, turn = MarkX, finished = False\<rparr>
   \<and> map mark (heap (fst (startMatch False 0 1
      \<lparr>heap = [\<lparr>pid = alice, name = alice, mark = MarkX, gameId = None\<rparr>,
               \<lparr>pid = bob, name = bob, mark = MarkX, gameId = None\<rparr>],
       cur = (\<lambda>_. None)(alice := Some 0, bob := Some 1),
       waitingQueue = [], games = [], pending = []\<rparr>))) = [MarkO, MarkX]"
  using startMatch_assigns[of 0 1
      "\<lparr>heap = [\<lparr>pid = alice, name = alice, mark = MarkX, gameId = None\<rparr>,
               \<lparr>pid = bob, name = bob, mark = MarkX, gameId = None\<rparr>],
       cur = (\<lambda>_. None)(alice := Some 0, bob := Some 1),
       waitingQueue = [], games = [], pending = []\<rparr>" False]
  by (simp add: startMatch_def Let_def)

section \<open>Joining and pairing\<close>

lemma started_append: "started (xs @ ys) = started xs @ started ys"
  by (induction xs rule: started.induct) auto

lemma startMatch_registers:
  "map_of (games (fst (startMatch d p1 p2 s))) (match_id (pid (heap s ! p1)) (pid (heap s ! p2)))
     = Some (new_game (match_id (pid (heap s ! p1)) (pid (heap s ! p2)))
          (if d then p1 else p2) (if d then p2 else p1))"
  by (simp add: startMatch_games AList.update_conv')

lemma startMatch_started:
  "started (snd (startMatch d p1 p2 s)) =
     [pid (heap s ! (if d then p1 else p2)), pid (heap s ! (if d then p2 else p1))]"
  by (auto simp: startMatch_def Let_def nth_update_field)

lemma join_start_frame:
  "waitingQueue (fst (join_start sid nm s)) = waitingQueue s
   \<and> games (fst (join_start sid nm s)) = games s
   \<and> snd (join_start sid nm s) = [Call (EnsurePlayerStats (name_or_id nm sid))]"
  by (simp add: join_start_def Let_def)

lemma join_resume_idle: "sid \<notin> set (pending s) \<Longrightarrow> join_resume sid rep d s = (s, [])"
  by (simp add: join_resume_def)

lemma join_resume_rejected:
  "waitingQueue (fst (join_resume sid Rejected d s)) = waitingQueue s
   \<and> games (fst (join_resume sid Rejected d s)) = games s
   \<and> heap (fst (join_resume sid Rejected d s)) = heap s
   \<and> snd (join_resume sid Rejected d s) = []"
  by (simp add: join_resume_def Let_def)

lemma join_resume_alone:
  assumes "sid \<in> set (pending s)" "cur s sid = Some p" "waitingQueue s = []"
  shows "join_resume sid (Resolved st) d s =
     (s\<lparr>pending := remove1 sid (pending s), waitingQueue := [p]\<rparr>,
      [Emit sid (Profile (name (heap s ! p)) (st \<noteq> None) st), Emit sid Waiting])"
  using assms by (simp add: join_resume_def Let_def)

lemma join_resume_pairs:
  assumes "sid \<in> set (pending s)" "cur s sid = Some p" "waitingQueue s = a # q"
  shows "join_resume sid (Resolved st) d s =
     (let s2 = s\<lparr>pending := remove1 sid (pending s), waitingQueue := tl (q @ [p])\<rparr>;
          b = hd (q @ [p])
      in (fst (startMatch d a b s2),
          [Emit sid (Profile (name (heap s ! p)) (st \<noteq> None) st), Emit sid Waiting]
          @ snd (startMatch d a b s2)))"
  using assms by (simp add: join_resume_def Let_def case_prod_beta)

lemma join_resume_queue:
  assumes "sid \<in> set (pending s)" "cur s sid = Some p"
  shows "waitingQueue (fst (join_resume sid (Resolved st) d s)) =
     (if waitingQueue s = [] then [p] else drop 2 (waitingQueue s @ [p]))"
proof (cases "waitingQueue s")
  case Nil
  then show ?thesis by (simp add: join_resume_alone[OF assms])
next
  case (Cons a q)
  then show ?thesis
    by (cases q) (simp_all add: join_resume_pairs[OF assms Cons] Let_def)
qed

lemma join_resume_step:
  assumes "sid \<in> set (pending s)" "cur s sid = Some p"
  shows "(let q = waitingQueue s @ [p];
        s' = fst (join_resume sid (Resolved st) d s);
        out = snd (join_resume sid (Resolved st) d s)
    in (2 \<le> length q \<longrightarrow>
          waitingQueue s' = drop 2 q
          \<and> map_of (games s') (match_id (pid (heap s' ! (q ! 0))) (pid (heap s' ! (q ! 1))))
              = Some (new_game (match_id (pid (heap s' ! (q ! 0))) (pid (heap s' ! (q ! 1))))
                   (if d then q ! 0 else q ! 1) (if d then q ! 1 else q ! 0))
          \<and> started out = [pid (heap s' ! (if d then q ! 0 else q ! 1)),
                            pid (heap s' ! (if d then q ! 1 else q ! 0))])
       \<and> (length q < 2 \<longrightarrow> waitingQueue s' = q \<and> games s' = games s \<and> started out = []))"
proof (cases "waitingQueue s")
  case Nil
  then show ?thesis by (simp add: join_resume_alone[OF assms] Let_def)
next
  case (Cons a q)
  obtain b rest where br: "q @ [p] = b # rest"
    by (cases "q @ [p]") auto
  have full: "waitingQueue s @ [p] = a # b # rest"
    using Cons br by simp
  let ?s2 = "s\<lparr>pending := remove1 sid (pending s), waitingQueue := rest\<rparr>"
  have j: "join_resume sid (Resolved st) d s =
      (fst (startMatch d a b ?s2),
       [Emit sid (Profile (name (heap s ! p)) (st \<noteq> None) st), Emit sid Waiting]
       @ snd (startMatch d a b ?s2))"
    by (simp add: join_resume_pairs[OF assms Cons] Let_def br)
  have reg: "map_of (games (fst (startMatch d a b ?s2)))
       (match_id (pid (heap ?s2 ! a)) (pid (heap ?s2 ! b)))
     = Some (new_game (match_id (pid (heap ?s2 ! a)) (pid (heap ?s2 ! b)))
          (if d then a else b) (if d then b else a))"
    by (rule startMatch_registers)
  have st: "started (snd (startMatch d a b ?s2)) =
     [pid (heap ?s2 ! (if d then a else b)), pid (heap ?s2 ! (if d then b else a))]"
    by (rule startMatch_started)
  have pidn: "pid (heap (fst (startMatch d a b ?s2)) ! i) = pid (heap ?s2 ! i)" for i
    by (rule startMatch_pid_nth)
  show ?thesis
    unfolding Let_def full j fst_conv snd_conv
    using reg st by (simp add: pidn)
qed

lemma arrange_short: "length xs \<le> 1 \<Longrightarrow> arrange xs = []"
  by (cases xs rule: arrange.cases) auto

lemma arrange_first: "arrange ((a, x) # r) = arrange ((a, y) # r)"
  by (cases r) auto

lemma unpaired_first: "unpaired ((a, x) # r) = unpaired ((a, y) # r)"
  by (cases r) auto

lemma waiting_ids_join_start:
  assumes "wf s"
  shows "waiting_ids (fst (join_start sid nm s)) = waiting_ids s"
  using assms
  by (auto simp: waiting_ids_def join_start_def Let_def wf_def nth_append)

lemma fifo_run:
  assumes "wf s" "list_all is_join es"
  shows "all_started es s = arrange (map (\<lambda>a. (a, False)) (waiting_ids s) @ enqueued es s)
     \<and> waiting_ids (run es s) = unpaired (map (\<lambda>a. (a, False)) (waiting_ids s) @ enqueued es s)"
  using assms
proof (induction es arbitrary: s)
  case Nil
  then have "length (waiting_ids s) \<le> 1" by (simp add: waiting_ids_def wf_def)
  then show ?case
    by (cases "waiting_ids s") (auto simp: arrange_short)
next
  case (Cons e es)
  from Cons.prems have wf: "wf s" and je: "is_join e" and jes: "list_all is_join es" by auto
  have wf': "wf (fst (handle e s))" by (rule handle_wf[OF wf])
  note IH = Cons.IH[OF wf' jes]
  show ?case
  proof (cases e)
    case (JoinStart sid nm)
    with IH waiting_ids_join_start[OF wf, of sid nm] show ?thesis
      by (simp add: join_start_frame)
  next
    case (JoinResume sid rep d)
    show ?thesis
    proof (cases rep)
      case Rejected
      with JoinResume IH show ?thesis
        by (simp add: join_resume_rejected waiting_ids_def)
    next
      case (Resolved st)
      show ?thesis
      proof (cases "sid \<in> set (pending s)")
        case False
        with JoinResume Resolved IH show ?thesis
          by (simp add: join_resume_idle)
      next
        case True
        with wf obtain p where p: "cur s sid = Some p" by (auto simp: wf_def)
        with wf have pp: "pid (heap s ! p) = sid" by (auto simp: wf_def)
        show ?thesis
        proof (cases "waitingQueue s")
          case Nil
          have e: "handle e s = (s\<lparr>pending := remove1 sid (pending s), waitingQueue := [p]\<rparr>,
              [Emit sid (Profile (name (heap s ! p)) (st \<noteq> None) st), Emit sid Waiting])"
            using JoinResume Resolved by (simp add: join_resume_alone[OF True p Nil])
          have w: "waiting_ids s = []" "waiting_ids (fst (handle e s)) = [sid]"
            using Nil pp by (simp_all add: e waiting_ids_def)
          have st: "started (snd (handle e s)) = []"
            by (simp add: e)
          from IH show ?thesis
            using JoinResume Resolved True p w st
            by (simp add: arrange_first[of sid False _ d] unpaired_first[of sid False _ d])
        next
          case (Cons a q)
          with wf have q: "q = []" by (auto simp: wf_def)
          let ?s2 = "s\<lparr>pending := remove1 sid (pending s), waitingQueue := []\<rparr>"
          have e: "handle e s = (fst (startMatch d a p ?s2),
              [Emit sid (Profile (name (heap s ! p)) (st \<noteq> None) st), Emit sid Waiting]
              @ snd (startMatch d a p ?s2))"
            using JoinResume Resolved q by (simp add: join_resume_pairs[OF True p Cons] Let_def)
          have w: "waiting_ids s = [pid (heap s ! a)]" "waiting_ids (fst (handle e s)) = []"
            using Cons q by (simp_all add: e waiting_ids_def)
          have st: "started (snd (handle e s)) =
              (if d then [pid (heap s ! a), sid] else [sid, pid (heap s ! a)])"
            using startMatch_started[of d a p ?s2] pp by (simp add: e)
          from IH show ?thesis
            using JoinResume Resolved True p w st by simp
        qed
      qed
    qed
  next
    case (Move sid g i)
    with je show ?thesis by simp
  next
    case (Disconnect sid)
    with je show ?thesis by simp
  qed
qed

text \<open>
  C5, amended. A join is queued when its statistics lookup resolves: the handler up to
  the \<open>await\<close> leaves queue and registry as they are, and so does a handler whose lookup
  rejects. A handler whose lookup resolves appends the connection's current player
  object to the queue; if the queue then has two or more entries, its first two entries
  are removed and a game of exactly those two is registered and announced to them, and
  otherwise queue and registry stay as they are. So in every run of joins from a
  reachable state with an empty queue, whatever the interleaving, the matches that are
  announced are the connections paired two by two in the order in which they were queued,
  and the one left over, if any, is the one queued last.
\<close>

theorem join_pairs_fifo:
  "waitingQueue (fst (join_start sid nm s)) = waitingQueue s
   \<and> games (fst (join_start sid nm s)) = games s
   \<and> started (snd (join_start sid nm s)) = []
   \<and> waitingQueue (fst (join_resume sid Rejected d s)) = waitingQueue s
   \<and> games (fst (join_resume sid Rejected d s)) = games s
   \<and> snd (join_resume sid Rejected d s) = []
   \<and> (sid \<in> set (pending s) \<and> cur s sid = Some p \<longrightarrow>
        (let q = waitingQueue s @ [p];
             s' = fst (join_resume sid (Resolved st) d s);
             out = snd (join_resume sid (Resolved st) d s)
         in (2 \<le> length q \<longrightarrow>
               waitingQueue s' = drop 2 q
               \<and> map_of (games s') (match_id (pid (heap s' ! (q ! 0))) (pid (heap s' ! (q ! 1))))
                   = Some (new_game (match_id (pid (heap s' ! (q ! 0))) (pid (heap s' ! (q ! 1))))
                        (if d then q ! 0 else q ! 1) (if d then q ! 1 else q ! 0))
               \<and> started out = [pid (heap s' ! (if d then q ! 0 else q ! 1)),
                                 pid (heap s' ! (if d then q ! 1 else q ! 0))])
            \<and> (length q < 2 \<longrightarrow>
                 waitingQueue s' = q \<and> games s' = games s \<and> started out = [])))
   \<and> (reachable s0 \<and> waitingQueue s0 = [] \<and> list_all is_join es \<longrightarrow>
        all_started es s0 = arrange (enqueued es s0)
        \<and> waiting_ids (run es s0) = unpaired (enqueued es s0))"
proof -
  have run: "all_started es s0 = arrange (enqueued es s0)
        \<and> waiting_ids (run es s0) = unpaired (enqueued es s0)"
    if "reachable s0" "waitingQueue s0 = []" "list_all is_join es"
    using fifo_run[OF reachable_wf[OF that(1)] that(3)] that(2)
    by (simp add: waiting_ids_def)
  show ?thesis
    using join_start_frame[of sid nm s] join_resume_rejected[of sid d s]
      join_resume_step[of sid s p st d] run
    by simp
qed

text \<open>
  \<open>alice\<close>, \<open>bob\<close>, \<open>carol\<close> and \<open>dave\<close> join, and their lookups resolve in this order
  after all four have joined: \<open>alice\<close> is matched with \<open>bob\<close> and \<open>carol\<close> with \<open>dave\<close>.
  And \<open>alice\<close> alone is left waiting.
\<close>

theorem join_pairs_fifo_witness:
  "enqueued four_overlapping init = [(alice, True), (bob, True), (carol, False), (dave, False)]
   \<and> all_started four_overlapping init = [alice, bob, dave, carol]
   \<and> waiting_ids (run four_overlapping init) = []
   \<and> waitingQueue (fst (join_resume alice (Resolved None) True
        (fst (join_start alice None init)))) = [0]"
proof -
  have e: "enqueued four_overlapping init
      = [(alice, True), (bob, True), (carol, False), (dave, False)]"
    by (simp add: four_overlapping_def handler_defs)
  have j: "list_all is_join four_overlapping"
    by (simp add: four_overlapping_def)
  have p: "alice \<in> set (pending (fst (join_start alice None init)))"
    "cur (fst (join_start alice None init)) alice = Some 0"
    "waitingQueue (fst (join_start alice None init)) = []"
    by (simp_all add: join_start_def init_def Let_def)
  note t = join_pairs_fifo[of alice None init True 0 None init four_overlapping]
  note u = join_pairs_fifo[of alice None "fst (join_start alice None init)" True 0 None init "[]"]
  from t reachable.start j have "all_started four_overlapping init
      = arrange (enqueued four_overlapping init)
    \<and> waiting_ids (run four_overlapping init) = unpaired (enqueued four_overlapping init)"
    by (simp add: init_def)
  moreover from u p have "waitingQueue (fst (join_resume alice (Resolved None) True
        (fst (join_start alice None init)))) = [0]"
    by (simp add: Let_def)
  ultimately show ?thesis by (simp add: e)
qed

text \<open>
  C5, as stated: \<open>alice\<close>, \<open>bob\<close> and \<open>carol\<close> join in this order, and the lookup of
  \<open>alice\<close> resolves last. The first match pairs \<open>bob\<close> and \<open>carol\<close>, and \<open>alice\<close>, who
  joined first, is left waiting.
\<close>

theorem late_lookup_skips_first:
  "map (\<lambda>e. case e of JoinStart sid nm \<Rightarrow> sid | _ \<Rightarrow> []) (take 3 alice_late)
     = [alice, bob, carol]
   \<and> all_started alice_late init = [bob, carol]
   \<and> waiting_ids (run alice_late init) = [alice]
   \<and> map fst (games (run alice_late init)) = [match_id bob carol]"
  unfolding run_alice_late
  by (simp add: alice_late_def waiting_ids_def handler_defs eval_nat_numeral)

lemma join_resume_pid_nth:
  "pid (heap (fst (join_resume sid rep d s)) ! i) = pid (heap s ! i)"
  by (cases rep)
     (auto simp: join_resume_def Let_def case_prod_beta startMatch_pid_nth split: option.splits)

lemma join_resume_name_nth:
  "name (heap (fst (join_resume sid rep d s)) ! i) = name (heap s ! i)"
  by (cases rep)
     (auto simp: join_resume_def Let_def case_prod_beta startMatch_name_nth split: option.splits)

text \<open>
  C4, amended. A join is queued when its statistics lookup resolves, and not before and
  not when the lookup rejects; the handler then appends the connection's current player
  object to the queue without looking for that identity in it, and the pairing step
  removes the first two entries if there are two. So when the only waiting entry is of
  the joining identity, a resolved join leaves no entry of that identity in the queue
  and registers a game whose two players are both that connection. (In every state the
  server reaches, a connection with a suspended join holds an object, and that object
  carries the connection's identifier.)
\<close>

theorem join_always_appends:
  "waitingQueue (fst (join_start sid nm s)) = waitingQueue s
   \<and> waitingQueue (fst (join_resume sid Rejected d s)) = waitingQueue s
   \<and> (sid \<in> set (pending s) \<and> cur s sid = Some p \<longrightarrow>
        waitingQueue (fst (join_resume sid (Resolved st) d s))
          = (if waitingQueue s = [] then [p] else drop 2 (waitingQueue s @ [p])))
   \<and> (sid \<in> set (pending s) \<and> cur s sid = Some p \<and> waitingQueue s = [p']
        \<and> pid (heap s ! p') = sid \<and> pid (heap s ! p) = sid \<longrightarrow>
        entries_for sid (fst (join_resume sid (Resolved st) d s)) = []
        \<and> map_of (games (fst (join_resume sid (Resolved st) d s))) (match_id sid sid)
            = Some (new_game (match_id sid sid) (if d then p' else p) (if d then p else p'))
        \<and> started (snd (join_resume sid (Resolved st) d s)) = [sid, sid])
   \<and> (reachable s \<and> sid \<in> set (pending s) \<longrightarrow>
        (\<exists>p. cur s sid = Some p \<and> pid (heap s ! p) = sid))"
proof (intro conjI impI)
  show "\<exists>p. cur s sid = Some p \<and> pid (heap s ! p) = sid"
    if "reachable s \<and> sid \<in> set (pending s)"
  proof -
    from that have wf: "wf s" by (simp add: reachable_wf)
    with that obtain p where "cur s sid = Some p" by (auto simp: wf_def)
    with wf show ?thesis by (auto simp: wf_def)
  qed
  show "waitingQueue (fst (join_start sid nm s)) = waitingQueue s"
    by (simp add: join_start_frame)
  show "waitingQueue (fst (join_resume sid Rejected d s)) = waitingQueue s"
    by (simp add: join_resume_rejected)
  show "waitingQueue (fst (join_resume sid (Resolved st) d s))
          = (if waitingQueue s = [] then [p] else drop 2 (waitingQueue s @ [p]))"
    if "sid \<in> set (pending s) \<and> cur s sid = Some p"
    using that by (simp add: join_resume_queue)
next
  assume a: "sid \<in> set (pending s) \<and> cur s sid = Some p \<and> waitingQueue s = [p']
        \<and> pid (heap s ! p') = sid \<and> pid (heap s ! p) = sid"
  then have pc: "sid \<in> set (pending s)" "cur s sid = Some p" by simp_all
  note js = join_resume_step[OF pc, of st d, unfolded Let_def]
  show "entries_for sid (fst (join_resume sid (Resolved st) d s)) = []"
    using a by (simp add: entries_for_def join_resume_queue[OF pc])
  show "map_of (games (fst (join_resume sid (Resolved st) d s))) (match_id sid sid)
      = Some (new_game (match_id sid sid) (if d then p' else p) (if d then p else p'))"
    using js a by (simp add: join_resume_pid_nth)
  show "started (snd (join_resume sid (Resolved st) d s)) = [sid, sid]"
    using js a by (auto simp: join_resume_pid_nth)
qed

lemma run_alice_once:
  "run (joined alice None (Resolved None) True) init =
     \<lparr>heap = [\<lparr>pid = alice, name = alice, mark = MarkX, gameId = None\<rparr>],
      cur = (\<lambda>_. None)(alice := Some 0), waitingQueue = [0], games = [], pending = []\<rparr>"
  by (simp add: handler_defs)

lemma run_alice_twice:
  "run alice_twice init =
     \<lparr>heap = [\<lparr>pid = alice, name = alice, mark = MarkX,
                gameId = Some (match_id alice alice)\<rparr>,
              \<lparr>pid = alice, name = alice, mark = MarkO,
                gameId = Some (match_id alice alice)\<rparr>],
      cur = (\<lambda>_. None)(alice := Some 1), waitingQueue = [],
      games = [(match_id alice alice, new_game (match_id alice alice) 0 1)], pending = []\<rparr>"
  unfolding alice_twice_def run_append run_alice_once
  by (simp add: handler_defs eval_nat_numeral)

text \<open>The second join of \<open>alice\<close>, with a draw that fails.\<close>

theorem join_always_appends_witness:
  "waitingQueue (fst (join_resume alice (Resolved None) False
       (fst (join_start alice None (run (joined alice None (Resolved None) True) init))))) = []
   \<and> started (snd (join_resume alice (Resolved None) False
       (fst (join_start alice None (run (joined alice None (Resolved None) True) init)))))
       = [alice, alice]"
  using join_always_appends[of alice None
      "fst (join_start alice None (run (joined alice None (Resolved None) True) init))"
      False 1 None 0]
  unfolding run_alice_once
  by (simp add: join_start_def Let_def)

text \<open>
  C4, as stated: \<open>alice\<close> waits in the queue and joins again. The queue then holds no
  entry of hers, not one: the second join has appended a second object of her identity
  and the pairing step has matched the two against each other.
\<close>

theorem rejoin_not_idempotent:
  "entries_for alice (run (joined alice None (Resolved None) True) init) = [0]
   \<and> entries_for alice (run alice_twice init) = []
   \<and> length (entries_for alice (run alice_twice init)) \<noteq> 1
   \<and> games (run alice_twice init)
       = [(match_id alice alice, new_game (match_id alice alice) 0 1)]"
  unfolding run_alice_once run_alice_twice
  by (simp add: entries_for_def)

section \<open>The display name\<close>

lemma move_heap [simp]: "heap (fst (move sid k i s)) = heap s"
  by (auto simp: move_def Let_def split: option.splits)

lemma disconnect_heap [simp]: "heap (fst (disconnect sid s)) = heap s"
  by (cases "first_match sid s")
     (auto simp: disconnect_no_match disconnect_first_match forfeit_def Let_def)

lemma handle_name_nth:
  "p < length (heap s) \<Longrightarrow> name (heap (fst (handle e s)) ! p) = name (heap s ! p)"
  by (cases e) (simp_all add: join_start_def Let_def nth_append join_resume_name_nth)

text \<open>
  C8, amended. The player object that a join creates has the connection's identifier
  as \<open>id\<close>, and as \<open>name\<close> the requested name unchanged when one is given and is not the
  empty string, and the identifier otherwise; that name is what \<open>ensurePlayerStats\<close> is
  called with. No handler changes the name of an object afterwards.
\<close>

theorem join_display_name:
  "name (heap (fst (join_start sid nm s)) ! length (heap s))
     = (case nm of None \<Rightarrow> sid | Some n \<Rightarrow> if n = [] then sid else n)
   \<and> pid (heap (fst (join_start sid nm s)) ! length (heap s)) = sid
   \<and> cur (fst (join_start sid nm s)) sid = Some (length (heap s))
   \<and> snd (join_start sid nm s)
       = [Call (EnsurePlayerStats (case nm of None \<Rightarrow> sid | Some n \<Rightarrow> if n = [] then sid else n))]
   \<and> (p < length (heap s') \<longrightarrow> name (heap (fst (handle e s')) ! p) = name (heap s' ! p))"
  using handle_name_nth[of p s' e]
  by (simp add: join_start_def Let_def name_or_id_def)

text \<open>A join with the name \<open>" Bob "\<close>, one without a name, and the first name after a join of \<open>bob\<close>.\<close>

theorem join_display_name_witness:
  "name (heap (fst (join_start alice (Some (ascii '' Bob '')) init)) ! 0) = ascii '' Bob ''
   \<and> name (heap (fst (join_start alice None init)) ! 0) = alice
   \<and> name (heap (fst (handle (JoinResume bob (Resolved None) True)
        (fst (join_start bob None (run (joined alice (Some (ascii '' Bob '')) (Resolved None) True)
          init))))) ! 0) = ascii '' Bob ''"
proof -
  have s: "run (joined alice (Some (ascii '' Bob '')) (Resolved None) True) init
     = \<lparr>heap = [\<lparr>pid = alice, name = ascii '' Bob '', mark = MarkX, gameId = None\<rparr>],
        cur = (\<lambda>_. None)(alice := Some 0), waitingQueue = [0], games = [], pending = []\<rparr>"
    by (simp add: handler_defs ascii_def)
  show ?thesis
    using join_display_name[of alice "Some (ascii '' Bob '')" init 0
        "fst (join_start bob None (run (joined alice (Some (ascii '' Bob '')) (Resolved None) True)
          init))" "JoinResume bob (Resolved None) True"]
      join_display_name[of alice None init 0 init "JoinStart alice None"]
    unfolding s
    by (simp add: init_def ascii_def join_start_def Let_def)
qed

text \<open>
  C8, as stated: the name \<open>" Bob "\<close> is kept with its spaces, though its trimmed form is
  \<open>"Bob"\<close>; a name of two spaces, whose trimmed form is empty, is kept and the identifier
  is not used; a name of 65 code units keeps its length.
\<close>

theorem join_name_not_normalized:
  "name (heap (fst (join_start alice (Some (ascii '' Bob '')) init)) ! 0) = ascii '' Bob ''
   \<and> take 64 (trim (ascii '' Bob '')) = ascii ''Bob''
   \<and> ascii '' Bob '' \<noteq> ascii ''Bob''
   \<and> trim (ascii ''  '') = []
   \<and> name (heap (fst (join_start alice (Some (ascii ''  '')) init)) ! 0) = ascii ''  ''
   \<and> ascii ''  '' \<noteq> alice
   \<and> length (name (heap (fst (join_start alice (Some (replicate 65 0x41)) init)) ! 0)) = 65"
  by (simp add: handler_defs ascii_def trim_def js_ws_def ids)

section \<open>Moves\<close>

lemma persist_no_state: "\<not> list_ex is_state (persistResultSafe h g r)"
  by (cases r; simp add: persistResultSafe_def Let_def split: mark.splits)

lemma move_rejected:
  "\<not> move_ok sid k i s \<Longrightarrow> fst (move sid k i s) = s \<and> \<not> list_ex is_state (snd (move sid k i s))"
  by (auto simp: move_ok_def move_def Let_def split: option.splits)

lemma move_taken:
  assumes "move_ok sid k i s"
  obtains g p where "map_of (games s) k = Some g" "cur s sid = Some p"
    "\<not> finished g" "gameId (heap s ! p) = Some k" "turn g = mark (heap s ! p)"
    "0 \<le> i" "i \<le> 8" "at (board g) (nat i) = Some Empty"
  using assms by (auto simp: move_ok_def split: option.splits)

text \<open>
  C1, amended. A move is taken (the \<open>mark\<close> of the sender's current player object is
  written into the board at the index, the turn goes to the other mark, and the new board
  and turn are sent as \<open>state\<close> to the two players of the game) if and only if the
  referenced match is registered and not finished, the player object that the sender's
  connection holds has that match identifier as its \<open>gameId\<close>, the turn of the match is
  that object's mark, the index is in \<open>[0,8]\<close> and the cell is empty. The registry then
  holds the game with the new board and turn, or, when the move decides the game, no
  longer holds it. In every other case the whole server state is unchanged.
\<close>

theorem move_accepted_iff:
  "(accepted sid k i s \<longleftrightarrow> move_ok sid k i s)
   \<and> (move_ok sid k i s \<longrightarrow>
        (\<exists>g p. map_of (games s) k = Some g \<and> cur s sid = Some p
           \<and> (let b' = (board g)[nat i := Mk (mark (heap s ! p))]; t' = flip (turn g)
              in take 2 (snd (move sid k i s))
                   = [Emit (pid (heap s ! playerX g)) (StateEv (gid g) b' t'),
                      Emit (pid (heap s ! playerO g)) (StateEv (gid g) b' t')]
                 \<and> (checkWinner b' = None \<longrightarrow>
                      fst (move sid k i s)
                        = s\<lparr>games := AList.update k (g\<lparr>board := b', turn := t'\<rparr>) (games s)\<rparr>)
                 \<and> (checkWinner b' \<noteq> None \<longrightarrow>
                      fst (move sid k i s)
                        = s\<lparr>games := AList.delete (gid g) (AList.update k
                              (g\<lparr>board := b', turn := t', finished := True\<rparr>) (games s))\<rparr>))))
   \<and> (\<not> move_ok sid k i s \<longrightarrow> fst (move sid k i s) = s)"
proof (intro conjI impI)
  show "accepted sid k i s \<longleftrightarrow> move_ok sid k i s"
  proof (cases "move_ok sid k i s")
    case False
    with move_rejected[OF False] show ?thesis by (simp add: accepted_def)
  next
    case True
    then obtain g p where "map_of (games s) k = Some g" "cur s sid = Some p"
      "\<not> finished g" "gameId (heap s ! p) = Some k" "turn g = mark (heap s ! p)"
      "0 \<le> i" "i \<le> 8" "at (board g) (nat i) = Some Empty"
      by (rule move_taken)
    then have "list_ex is_state (snd (move sid k i s))"
      by (simp add: move_def Let_def split: option.splits)
    with True show ?thesis by (simp add: accepted_def)
  qed
next
  assume "move_ok sid k i s"
  then obtain g p where *: "map_of (games s) k = Some g" "cur s sid = Some p"
      "\<not> finished g" "gameId (heap s ! p) = Some k" "turn g = mark (heap s ! p)"
      "0 \<le> i" "i \<le> 8" "at (board g) (nat i) = Some Empty"
    by (rule move_taken)
  then have "let b' = (board g)[nat i := Mk (mark (heap s ! p))]; t' = flip (turn g)
              in take 2 (snd (move sid k i s))
                   = [Emit (pid (heap s ! playerX g)) (StateEv (gid g) b' t'),
                      Emit (pid (heap s ! playerO g)) (StateEv (gid g) b' t')]
                 \<and> (checkWinner b' = None \<longrightarrow>
                      fst (move sid k i s)
                        = s\<lparr>games := AList.update k (g\<lparr>board := b', turn := t'\<rparr>) (games s)\<rparr>)
                 \<and> (checkWinner b' \<noteq> None \<longrightarrow>
                      fst (move sid k i s)
                        = s\<lparr>games := AList.delete (gid g) (AList.update k
                              (g\<lparr>board := b', turn := t', finished := True\<rparr>) (games s))\<rparr>)"
    by (auto simp: move_def Let_def split: option.splits)
  with * show "\<exists>g p. map_of (games s) k = Some g \<and> cur s sid = Some p
           \<and> (let b' = (board g)[nat i := Mk (mark (heap s ! p))]; t' = flip (turn g)
              in take 2 (snd (move sid k i s))
                   = [Emit (pid (heap s ! playerX g)) (StateEv (gid g) b' t'),
                      Emit (pid (heap s ! playerO g)) (StateEv (gid g) b' t')]
                 \<and> (checkWinner b' = None \<longrightarrow>
                      fst (move sid k i s)
                        = s\<lparr>games := AList.update k (g\<lparr>board := b', turn := t'\<rparr>) (games s)\<rparr>)
                 \<and> (checkWinner b' \<noteq> None \<longrightarrow>
                      fst (move sid k i s)
                        = s\<lparr>games := AList.delete (gid g) (AList.update k
                              (g\<lparr>board := b', turn := t', finished := True\<rparr>) (games s))\<rparr>))"
    by blast
next
  assume "\<not> move_ok sid k i s"
  then show "fst (move sid k i s) = s" by (simp add: move_rejected)
qed

text \<open>
  C1, as stated, fails in both directions. Two pairs of connections whose identifiers agree
  on the first five code units get the same match identifier, and the second game
  replaces the first in the registry: a move of \<open>alice1\<close>, who is no player of the
  registered game, is taken. And \<open>alice\<close>, who plays \<open>X\<close> in a registered game and joins
  again, holds a new player object: her move, on her turn, into an empty cell, is ignored.
\<close>

theorem move_check_differs:
  "accepted alice1 (match_id alice1 bobby1) 0
     (run collision init)
   \<and> \<not> legal_spec alice1 (match_id alice1 bobby1) 0
     (run collision init)
   \<and> snd (move alice1 (match_id alice1 bobby1) 0
     (run collision init))
     = [Emit alice2 (StateEv (match_id alice1 bobby1)
          [Mk MarkX, Empty, Empty, Empty, Empty, Empty, Empty, Empty, Empty] MarkO),
        Emit bobby2 (StateEv (match_id alice1 bobby1)
          [Mk MarkX, Empty, Empty, Empty, Empty, Empty, Empty, Empty, Empty] MarkO)]
   \<and> legal_spec alice (match_id alice bob) 0
     (run rejoin init)
   \<and> \<not> accepted alice (match_id alice bob) 0
     (run rejoin init)"
  unfolding run_collision run_rejoin
  by (simp add: accepted_def legal_spec_def handler_defs board_defs eval_nat_numeral)

text \<open>
  \<open>alice\<close> plays \<open>X\<close> against \<open>bob\<close>: her move to the centre is taken; a move of \<open>bob\<close>,
  whose turn it is not, leaves the state as it is.
\<close>

theorem move_accepted_iff_witness:
  "snd (move alice (match_id alice bob) 4
     (run alice_bob init))
     = [Emit alice (StateEv (match_id alice bob)
          [Empty, Empty, Empty, Empty, Mk MarkX, Empty, Empty, Empty, Empty] MarkO),
        Emit bob (StateEv (match_id alice bob)
          [Empty, Empty, Empty, Empty, Mk MarkX, Empty, Empty, Empty, Empty] MarkO)]
   \<and> fst (move bob (match_id alice bob) 4
     (run alice_bob init))
     = run alice_bob init"
  using move_accepted_iff[of alice "match_id alice bob" 4
      "run alice_bob init"]
    move_accepted_iff[of bob "match_id alice bob" 4
      "run alice_bob init"]
  unfolding run_alice_bob
  by (simp add: move_ok_def handler_defs board_defs eval_nat_numeral)

lemma persist_calls: "Emit t ev \<notin> set (persistResultSafe h g r)"
  by (cases r; simp add: persistResultSafe_def Let_def split: mark.splits)

lemma move_ignored:
  "map_of (games s) k = None \<or> (\<exists>g. map_of (games s) k = Some g \<and> finished g)
     \<Longrightarrow> move sid k i s = (s, [])"
  by (auto simp: move_def)

lemma move_gameOver_removed:
  assumes "Emit t (GameOver k r) \<in> set (snd (move sid k' i s))"
  shows "map_of (games (fst (move sid k' i s))) k = None"
  using assms
  by (auto simp: move_def Let_def persist_calls AList.delete_conv'
      split: option.splits if_splits)

lemma disconnect_gameOver_removed:
  assumes "Emit t (GameOver k r) \<in> set (snd (disconnect sid s))"
  shows "map_of (games (fst (disconnect sid s))) k = None"
proof (cases "first_match sid s")
  case None
  with assms show ?thesis by (simp add: disconnect_no_match)
next
  case (Some kg)
  obtain k0 g where [simp]: "kg = (k0, g)" by (cases kg)
  from Some assms show ?thesis
    by (auto simp: disconnect_first_match forfeit_def Let_def AList.delete_conv' split: if_splits)
qed

lemma move_keeps_unregistered:
  assumes "map_of (games s) k = None"
  shows "map_of (games (fst (move sid k' i s))) k = None"
  using assms
  by (auto simp: move_def Let_def AList.delete_conv' AList.update_conv'
      split: option.splits if_splits)

lemma disconnect_keeps_unregistered:
  assumes "map_of (games s) k = None"
  shows "map_of (games (fst (disconnect sid s))) k = None"
proof (cases "first_match sid s")
  case None
  with assms show ?thesis by (simp add: disconnect_no_match)
next
  case (Some kg)
  obtain k0 g where [simp]: "kg = (k0, g)" by (cases kg)
  from Some have "(k0, g) \<in> set (games s)"
    using first_match_props(1) by simp
  with assms have "k \<noteq> k0"
    by (metis map_of_eq_None_iff fst_conv image_eqI)
  with Some assms show ?thesis
    by (auto simp: disconnect_first_match forfeit_def Let_def AList.delete_conv' AList.update_conv')
qed

lemma join_start_games [simp]: "games (fst (join_start sid nm s)) = games s"
  by (simp add: join_start_def Let_def)

lemma join_resume_registers_announced:
  assumes "map_of (games s) k = None"
  shows "map_of (games (fst (join_resume sid rep d s))) k = None
     \<or> (\<exists>t m opp. Emit t (MatchStarted k m opp) \<in> set (snd (join_resume sid rep d s)))"
  using assms
  by (cases rep)
     (auto simp: join_resume_def Let_def case_prod_beta startMatch_def AList.update_conv'
        split: option.splits)

lemma announced_iff:
  "k \<in> set (announced out) \<longleftrightarrow> (\<exists>t m opp. Emit t (MatchStarted k m opp) \<in> set out)"
  by (induction out rule: announced.induct) auto

lemma handle_keeps_unregistered:
  assumes "map_of (games s) k = None" "k \<notin> set (announced (snd (handle e s)))"
  shows "map_of (games (fst (handle e s))) k = None"
proof (cases e)
  case (JoinStart sid nm)
  with assms(1) show ?thesis by simp
next
  case (JoinResume sid rep d)
  with assms join_resume_registers_announced[OF assms(1), of sid rep d] show ?thesis
    by (auto simp: announced_iff)
next
  case (Move sid g i)
  with assms(1) show ?thesis by (simp add: move_keeps_unregistered)
next
  case (Disconnect sid)
  with assms(1) show ?thesis by (simp add: disconnect_keeps_unregistered)
qed

lemma run_keeps_unregistered:
  "map_of (games s) k = None \<Longrightarrow> no_rematch k es s \<Longrightarrow> map_of (games (run es s)) k = None"
  by (induction es arbitrary: s) (auto simp: handle_keeps_unregistered)

section \<open>Finished matches\<close>

text \<open>
  C6, amended. A move that references an identifier that is not registered, or whose
  game is finished, sends nothing and leaves the server as it is. A match that ends, by a
  deciding move or by a forfeit (whenever \<open>gameOver\<close> for \<open>k\<close> is sent), is no longer
  registered under \<open>k\<close> afterwards. An identifier that is not registered stays so through
  every move and every disconnect, and through every step of a join that does not start
  a match with that identifier; so after any run in which no \<open>matchStarted\<close> announces \<open>k\<close>, a
  move that references \<open>k\<close> still sends nothing and changes nothing. (A join that pairs
  two connections registers the identifier built from the first five code units of their
  identifiers, also if a finished match had it before.)
\<close>

theorem finished_moves_ignored:
  "(map_of (games s) k = None \<or> (\<exists>g. map_of (games s) k = Some g \<and> finished g)
      \<longrightarrow> move sid k i s = (s, []))
   \<and> (Emit t (GameOver k r) \<in> set (snd (move sid' k' i' s))
      \<longrightarrow> map_of (games (fst (move sid' k' i' s))) k = None)
   \<and> (Emit t (GameOver k r) \<in> set (snd (disconnect sid' s))
      \<longrightarrow> map_of (games (fst (disconnect sid' s))) k = None)
   \<and> (map_of (games s) k = None
      \<longrightarrow> map_of (games (fst (move sid' k' i' s))) k = None
          \<and> map_of (games (fst (disconnect sid' s))) k = None
          \<and> map_of (games (fst (join_start sid' nm s))) k = None
          \<and> (map_of (games (fst (join_resume sid' rep d s))) k = None
               \<or> (\<exists>t m opp. Emit t (MatchStarted k m opp)
                     \<in> set (snd (join_resume sid' rep d s)))))
   \<and> (map_of (games s) k = None \<and> no_rematch k es s
      \<longrightarrow> move sid k i (run es s) = (run es s, []))"
proof -
  have "move sid k i (run es s) = (run es s, [])"
    if "map_of (games s) k = None" "no_rematch k es s"
    using run_keeps_unregistered[OF that] by (simp add: move_ignored)
  moreover have js: "map_of (games (fst (join_start sid' nm s))) k = None"
    if "map_of (games s) k = None"
    using that by simp
  ultimately show ?thesis
    using move_ignored[of s k sid i] move_gameOver_removed[of t k r sid' k' i' s]
      disconnect_gameOver_removed[of t k r sid' s] move_keeps_unregistered[of s k sid' k' i']
      disconnect_keeps_unregistered[of s k sid']
      join_resume_registers_announced[of s k sid' rep d] js
    by blast
qed

text \<open>
  C6, as stated: \<open>alice\<close> wins her game against \<open>bob\<close>, which is removed from the
  registry; both join again, in the same order, and their new match gets the identifier
  of the finished one. A move that references it is then taken.
\<close>

theorem rematch_reuses_id:
  "Emit alice (GameOver (match_id alice bob) (Won MarkX))
     \<in> set (snd (handle (Move alice (match_id alice bob) 2) (run (butlast won_game) init)))
   \<and> run won_game init
       = fst (handle (Move alice (match_id alice bob) 2) (run (butlast won_game) init))
   \<and> map_of (games (run won_game init)) (match_id alice bob) = None
   \<and> snd (handle (Move alice (match_id alice bob) 0)
        (run rematch init))
       = [Emit alice (StateEv (match_id alice bob)
            [Mk MarkX, Empty, Empty, Empty, Empty, Empty, Empty, Empty, Empty] MarkO),
          Emit bob (StateEv (match_id alice bob)
            [Mk MarkX, Empty, Empty, Empty, Empty, Empty, Empty, Empty, Empty] MarkO)]
   \<and> games (fst (handle (Move alice (match_id alice bob) 0)
        (run rematch init)))
       \<noteq> games (run rematch init)"
  unfolding run_rematch run_won_game run_before_win
  by (simp add: handler_defs board_defs eval_nat_numeral)

text \<open>
  The deciding move of \<open>alice\<close> removes the match, and a later move of \<open>bob\<close> that
  references it is ignored.
\<close>

theorem finished_moves_ignored_witness:
  "map_of (games (fst (move alice (match_id alice bob) 2 (run (butlast won_game) init))))
     (match_id alice bob) = None
   \<and> map_of (games (run won_game init)) (match_id alice bob) = None
   \<and> move bob (match_id alice bob) 5 (run won_game init) = (run won_game init, [])
   \<and> no_rematch (match_id alice bob) (joined carol None (Resolved None) True @ [Disconnect alice])
        (run won_game init)
   \<and> snd (move bob (match_id alice bob) 5
        (run (joined carol None (Resolved None) True @ [Disconnect alice]) (run won_game init))) = []"
  using finished_moves_ignored[of "run won_game init" "match_id alice bob" bob 5 alice "Won MarkX"
      alice "match_id alice bob" 2 None "Resolved None" True
      "(joined carol None (Resolved None) True @ [Disconnect alice])"]
    finished_moves_ignored[of "run (butlast won_game) init" "match_id alice bob" bob 5 alice
      "Won MarkX" alice "match_id alice bob" 2 None "Resolved None" True "[]"]
  unfolding run_won_game run_before_win
  by (simp add: handler_defs board_defs eval_nat_numeral)

end
